theory Spec2Isabelle
  imports Complex_Main "HOL-Library.AList"
begin

section \<open>Data model of \<open>govee_thermometer/main.py\<close>\<close>

text \<open>
  The module keeps its state in globals: \<open>temp_data\<close> (a dict from device address to a
  dict from probe id to temperature), \<open>processed_devices\<close>, \<open>found_h5055\<close>,
  \<open>h5055_address\<close> and \<open>monitoring_start_time\<close>. Python dicts keep insertion order and
  \<open>temp_data.items()\<close> is iterated in that order, so both dicts are association lists
  updated with \<open>AList.update\<close> (replace in place, or append a new key at the end).

  A temperature is a Python \<open>float\<close> or \<open>None\<close>; it is only stored, compared with zero and
  formatted, so the float is taken as the real number it denotes (no NaN, no infinities).
  A probe id is a Python \<open>int\<close>.
\<close>

type_synonym device_address = string
type_synonym probe_id = int
type_synonym temp = "real option"
type_synonym probes = "(probe_id \<times> temp) list"
type_synonym temp_data = "(device_address \<times> probes) list"
type_synonym datetime = real

datatype error = TypeError | ValueError | DecoderError

datatype log_entry = AdvertisementErrorLogged device_address | ScanErrorLogged | MainLoopErrorLogged

text \<open>
  The output file is the sequence of records written to it, each tagged by the
  \<open>csv.DictWriter\<close> call that wrote it; \<open>None\<close> is a path where \<open>os.path.isfile\<close> is false.
\<close>

datatype csv_line = Header "string list" | Row "string list"

type_synonym csv_file = "csv_line list option"

record state =
  temp_data :: temp_data
  processed_devices :: "device_address set"
  found_h5055 :: bool
  h5055_address :: "device_address option"
  monitoring_start_time :: "datetime option"
  csv_file :: csv_file
  error_log :: "log_entry list"

definition initial_state :: "csv_file \<Rightarrow> state" where
  "initial_state f =
     \<lparr>temp_data = [], processed_devices = {}, found_h5055 = False, h5055_address = None,
      monitoring_start_time = None, csv_file = f, error_log = []\<rparr>"

section \<open>Integer and elapsed-time formatting\<close>

definition digit_char :: "nat \<Rightarrow> char" where
  "digit_char d = ''0123456789'' ! d"

text \<open>\<open>str(n)\<close> for a Python int: decimal digits, a leading minus sign when negative.\<close>

function str_nat :: "nat \<Rightarrow> string" where
  "str_nat n = (if n < 10 then [digit_char n] else str_nat (n div 10) @ [digit_char (n mod 10)])"
  by pat_completeness auto
termination
  by (relation "measure id") auto

declare str_nat.simps [simp del]

definition str_int :: "int \<Rightarrow> string" where
  "str_int i = (if i < 0 then CHR ''-'' # str_nat (nat (- i)) else str_nat (nat i))"

text \<open>Reading a decimal numeral back; it is the inverse of \<open>str_nat\<close>.\<close>

definition digit_value :: "char \<Rightarrow> nat" where
  "digit_value c = of_char c - 48"

definition read_nat :: "string \<Rightarrow> nat" where
  "read_nat s = foldl (\<lambda>acc c. 10 * acc + digit_value c) 0 s"

text \<open>The format spec \<open>02d\<close>: zero-padded to a minimum width of two, sign included.\<close>

definition fmt_02d :: "int \<Rightarrow> string" where
  "fmt_02d i = (if 0 \<le> i \<and> i < 10 then CHR ''0'' # str_int i else str_int i)"

text \<open>
  Python's \<open>//\<close> and \<open>%\<close> on floats (floor division, remainder with the sign of the
  divisor; the divisors here are the positive constants 3600 and 60) and \<open>int()\<close>
  (truncation towards zero).
\<close>

definition py_floordiv :: "real \<Rightarrow> real \<Rightarrow> real" where
  "py_floordiv x y = of_int \<lfloor>x / y\<rfloor>"

definition py_mod :: "real \<Rightarrow> real \<Rightarrow> real" where
  "py_mod x y = x - y * of_int \<lfloor>x / y\<rfloor>"

definition py_int :: "real \<Rightarrow> int" where
  "py_int x = (if x < 0 then \<lceil>x\<rceil> else \<lfloor>x\<rfloor>)"

text \<open>Lines 35 to 38 of \<open>format_elapsed_time\<close>, from the elapsed seconds on.\<close>

definition format_elapsed_seconds :: "real \<Rightarrow> string" where
  "format_elapsed_seconds elapsed_seconds =
     (let elapsed_hours = py_int (py_floordiv elapsed_seconds 3600);
          elapsed_minutes = py_int (py_floordiv (py_mod elapsed_seconds 3600) 60);
          display_seconds = py_int (py_mod elapsed_seconds 60)
      in str_int elapsed_hours @ '':'' @ fmt_02d elapsed_minutes @ '':'' @ fmt_02d display_seconds)"

text \<open>\<open>format_elapsed_time\<close>; the clock reading \<open>datetime.now()\<close> is the first argument.\<close>

definition format_elapsed_time :: "datetime \<Rightarrow> datetime \<Rightarrow> string" where
  "format_elapsed_time now start_time = format_elapsed_seconds (now - start_time)"

text \<open>
  The reading of the specification: \<open>H:MM:SS\<close> for a whole number of seconds, the hours
  as a plain decimal number, minutes and seconds as exactly two decimal digits.
\<close>

definition two_digits :: "int \<Rightarrow> string" where
  "two_digits k = [digit_char (nat (k div 10)), digit_char (nat (k mod 10))]"

definition hms_string :: "int \<Rightarrow> string" where
  "hms_string n =
     str_int (n div 3600) @ '':'' @ two_digits ((n div 60) mod 60) @ '':'' @ two_digits (n mod 60)"

section \<open>The Reading Store: \<open>TemperatureCapturingParser\<close>\<close>

text \<open>
  Both methods override a method of the base class \<open>GoveeBluetoothDeviceData\<close> and first
  call the overridden method through \<open>super()\<close>. The base class belongs to the decoder
  library \<open>govee_ble\<close>, which is outside the repository. Its \<open>update_temp_probe\<close> records
  the value as a sensor of the parser object and leaves \<open>temp_data\<close> alone. Its
  \<open>update_temp_probe_with_alarm\<close> calls \<open>self.update_temp_probe(temp, probe_id)\<close>, whatever
  the temperature is; the parser object is a \<open>TemperatureCapturingParser\<close>, so that call
  runs the override of lines 46 to 53, which writes \<open>temp_data\<close>.
\<close>

definition update_temp_probe :: "device_address \<Rightarrow> temp \<Rightarrow> probe_id \<Rightarrow> temp_data \<Rightarrow> temp_data" where
  "update_temp_probe device_address t pid td =
     (let td1 = (if map_of td device_address = None then AList.update device_address [] td else td)
      in case map_of td1 device_address of
           None \<Rightarrow> td1
         | Some ps \<Rightarrow> AList.update device_address (AList.update pid t ps) td1)"

text \<open>
  The base method \<open>update_temp_probe_with_alarm\<close>, in what it does to \<open>temp_data\<close>: the
  call of \<open>self.update_temp_probe\<close>.
\<close>

definition base_update_temp_probe_with_alarm ::
  "device_address \<Rightarrow> temp \<Rightarrow> real option \<Rightarrow> probe_id \<Rightarrow> real option \<Rightarrow> temp_data \<Rightarrow> temp_data" where
  "base_update_temp_probe_with_alarm device_address t alarm_temp pid low_alarm_temp td =
     update_temp_probe device_address t pid td"

text \<open>Lines 55 to 63: the call through \<open>super()\<close> of line 56, then the guarded store.\<close>

definition update_temp_probe_with_alarm ::
  "device_address \<Rightarrow> temp \<Rightarrow> real option \<Rightarrow> probe_id \<Rightarrow> real option \<Rightarrow> temp_data \<Rightarrow> temp_data" where
  "update_temp_probe_with_alarm device_address t alarm_temp pid low_alarm_temp td =
     (let td0 = base_update_temp_probe_with_alarm device_address t alarm_temp pid low_alarm_temp td;
          td1 = (if map_of td0 device_address = None then AList.update device_address [] td0 else td0)
      in if (case t of None \<Rightarrow> False | Some x \<Rightarrow> x > 0)
         then (case map_of td1 device_address of
                 None \<Rightarrow> td1
               | Some ps \<Rightarrow> AList.update device_address (AList.update pid t ps) td1)
         else td1)"

text \<open>A call the decoder makes on the parser while it decodes one advertisement.\<close>

datatype probe_update =
  Plain temp probe_id
| WithAlarm temp "real option" probe_id "real option"

fun apply_update :: "device_address \<Rightarrow> probe_update \<Rightarrow> temp_data \<Rightarrow> temp_data" where
  "apply_update a (Plain t pid) td = update_temp_probe a t pid td"
| "apply_update a (WithAlarm t alarm pid low) td = update_temp_probe_with_alarm a t alarm pid low td"

definition apply_updates :: "(device_address \<times> probe_update) list \<Rightarrow> temp_data \<Rightarrow> temp_data" where
  "apply_updates us td = fold (\<lambda>(a, u). apply_update a u) us td"

text \<open>\<open>temp_data[device][probe]\<close>, when both keys are present.\<close>

definition reading :: "temp_data \<Rightarrow> device_address \<Rightarrow> probe_id \<Rightarrow> temp option" where
  "reading td a pid = (case map_of td a of None \<Rightarrow> None | Some ps \<Rightarrow> map_of ps pid)"

text \<open>The specification's notion of an accepted update, and the last one of a sequence.\<close>

fun update_temp :: "probe_update \<Rightarrow> temp" where
  "update_temp (Plain t pid) = t"
| "update_temp (WithAlarm t alarm pid low) = t"

fun update_probe :: "probe_update \<Rightarrow> probe_id" where
  "update_probe (Plain t pid) = pid"
| "update_probe (WithAlarm t alarm pid low) = pid"

fun positive_temp :: "temp \<Rightarrow> bool" where
  "positive_temp None = False"
| "positive_temp (Some x) = (x > 0)"

fun accepted :: "probe_update \<Rightarrow> bool" where
  "accepted (Plain t pid) = True"
| "accepted (WithAlarm t alarm pid low) = positive_temp t"

definition last_accepted ::
  "device_address \<Rightarrow> probe_id \<Rightarrow> (device_address \<times> probe_update) list \<Rightarrow> temp option" where
  "last_accepted a pid us =
     (let acc = filter (\<lambda>(a', u). a' = a \<and> update_probe u = pid \<and> accepted u) us
      in if acc = [] then None else Some (update_temp (snd (last acc))))"

text \<open>The last update of a sequence for a pair, of either kind.\<close>

definition last_update ::
  "device_address \<Rightarrow> probe_id \<Rightarrow> (device_address \<times> probe_update) list \<Rightarrow> temp option" where
  "last_update a pid us =
     (let upd = filter (\<lambda>(a', u). a' = a \<and> update_probe u = pid) us
      in if upd = [] then None else Some (update_temp (snd (last upd))))"

section \<open>Snapshot and CSV persistence: \<open>print_temperature_readings\<close>\<close>

text \<open>
  The format spec \<open>.1f\<close> is a parameter \<open>fmt\<close> of the model (the formatting of a float is
  not modelled); applied to \<open>None\<close> it raises \<open>TypeError\<close>. The calls to \<open>print\<close> write to
  standard output only and are left out, but the formatting inside them is kept, since it
  can raise.
\<close>

fun format_temp :: "(real \<Rightarrow> string) \<Rightarrow> temp \<Rightarrow> error + string" where
  "format_temp fmt None = Inl TypeError"
| "format_temp fmt (Some x) = Inr (fmt x)"

definition probe_column :: "probe_id \<Rightarrow> string" where
  "probe_column pid = ''probe_'' @ str_int pid"

text \<open>
  \<open>sorted(probes.items())\<close>: the keys of a dict are distinct, so the tuples are ordered by
  their probe id alone.
\<close>

definition sorted_items :: "probes \<Rightarrow> probes" where
  "sorted_items ps = sort_key fst ps"

text \<open>The loop of lines 122 and 123.\<close>

fun print_probes :: "(real \<Rightarrow> string) \<Rightarrow> probes \<Rightarrow> error option" where
  "print_probes fmt [] = None"
| "print_probes fmt ((pid, t) # ps) =
     (case format_temp fmt t of Inl e \<Rightarrow> Some e | Inr s \<Rightarrow> print_probes fmt ps)"

text \<open>The loop of lines 130 and 131, which fills \<open>row_data\<close>.\<close>

fun fill_row :: "(real \<Rightarrow> string) \<Rightarrow> probes \<Rightarrow> (string \<times> string) list \<Rightarrow> error + (string \<times> string) list" where
  "fill_row fmt [] row_data = Inr row_data"
| "fill_row fmt ((pid, t) # ps) row_data =
     (case format_temp fmt t of
        Inl e \<Rightarrow> Inl e
      | Inr s \<Rightarrow> fill_row fmt ps (AList.update (probe_column pid) s row_data))"

text \<open>Lines 135 to 141.\<close>

definition all_probe_ids :: "temp_data \<Rightarrow> probe_id set" where
  "all_probe_ids td = fold (\<lambda>(a, dev_probes) ids. ids \<union> set (map fst dev_probes)) td {}"

definition fieldnames :: "temp_data \<Rightarrow> string list" where
  "fieldnames td =
     fold (\<lambda>pid fs. fs @ [probe_column pid]) (sorted_list_of_set (all_probe_ids td))
       [''t_plus'', ''device'']"

text \<open>
  \<open>csv.DictWriter.writerow\<close> with the defaults \<open>restval=''\<close> and \<open>extrasaction='raise'\<close>: a key
  of the row that is no field name raises \<open>ValueError\<close>; a field name that is no key of
  the row gives the empty string.
\<close>

definition dict_to_list :: "string list \<Rightarrow> (string \<times> string) list \<Rightarrow> error + string list" where
  "dict_to_list fns rowdict =
     (if list_ex (\<lambda>k. k \<notin> set fns) (map fst rowdict) then Inl ValueError
      else Inr (map (\<lambda>k. case map_of rowdict k of None \<Rightarrow> [] | Some v \<Rightarrow> v) fns))"

text \<open>
  The loop over \<open>temp_data.items()\<close> (lines 116 to 149). The third argument is the whole
  of \<open>temp_data\<close>, the fourth the items still to visit. An exception leaves the file as
  the writes before it made it.
\<close>

fun write_rows ::
  "(real \<Rightarrow> string) \<Rightarrow> string \<Rightarrow> temp_data \<Rightarrow> temp_data \<Rightarrow> csv_file \<Rightarrow> error option \<times> csv_file" where
  "write_rows fmt t_plus td [] f = (None, f)"
| "write_rows fmt t_plus td ((device_addr, probes) # rest) f =
     (if probes = [] then write_rows fmt t_plus td rest f
      else case print_probes fmt (sorted_items probes) of
        Some e \<Rightarrow> (Some e, f)
      | None \<Rightarrow>
          (case fill_row fmt (sorted_items probes) [(''t_plus'', t_plus), (''device'', device_addr)] of
             Inl e \<Rightarrow> (Some e, f)
           | Inr row_data \<Rightarrow>
               (let file_exists = (f \<noteq> None);
                    fns = fieldnames td;
                    opened = (case f of None \<Rightarrow> [] | Some ls \<Rightarrow> ls);
                    with_header = (if \<not> file_exists then opened @ [Header fns] else opened)
                in case dict_to_list fns row_data of
                     Inl e \<Rightarrow> (Some e, Some with_header)
                   | Inr cells \<Rightarrow> write_rows fmt t_plus td rest (Some (with_header @ [Row cells])))))"

text \<open>
  \<open>print_temperature_readings\<close>. The clock is read at line 112 (\<open>now_start\<close>, used when no
  start time is set) and inside \<open>format_elapsed_time\<close> (\<open>now\<close>).
\<close>

definition print_temperature_readings ::
  "(real \<Rightarrow> string) \<Rightarrow> datetime \<Rightarrow> datetime \<Rightarrow> state \<Rightarrow> error option \<times> state" where
  "print_temperature_readings fmt now_start now st =
     (if temp_data st = [] then (None, st)
      else
        (let start = (case monitoring_start_time st of None \<Rightarrow> now_start | Some s \<Rightarrow> s);
             st1 = st\<lparr>monitoring_start_time := Some start\<rparr>;
             t_plus = format_elapsed_time now start;
             (err, f) = write_rows fmt t_plus (temp_data st1) (temp_data st1) (csv_file st1)
         in (err, st1\<lparr>csv_file := f\<rparr>)))"

text \<open>The lines of a file; none when it does not exist.\<close>

definition file_lines :: "csv_file \<Rightarrow> csv_line list" where
  "file_lines f = (case f of None \<Rightarrow> [] | Some ls \<Rightarrow> ls)"

section \<open>Scanning: \<open>process_advertisement\<close>, \<open>scan_for_devices\<close>, \<open>scan_specific_device\<close>\<close>

text \<open>
  The scanning facility and the decoder are external. An advertisement is given by what
  the decoder does with it: the device type it reports, the calls it makes on the parser,
  in order, and whether it raises after them. A scan is given by the advertisements the
  facility delivers and by where it fails, if it does: before it delivers anything
  (the constructor or \<open>start\<close>), or in \<open>stop\<close>, after the callbacks have run.
\<close>

record advertisement =
  adv_address :: device_address
  adv_device_type :: "string option"
  adv_updates :: "probe_update list"
  adv_decoder_raises :: bool

datatype scan_outcome =
  StartFails
| StopFails "advertisement list"
| Completes "advertisement list"

definition process_advertisement :: "advertisement \<Rightarrow> state \<Rightarrow> error option \<times> state" where
  "process_advertisement adv st =
     (let address = adv_address adv;
          st1 = st\<lparr>temp_data := fold (apply_update address) (adv_updates adv) (temp_data st)\<rparr>
      in if adv_decoder_raises adv then (Some DecoderError, st1)
         else if adv_device_type adv = Some ''H5055'' \<and> address \<notin> processed_devices st1
         then (None, st1\<lparr>processed_devices := insert address (processed_devices st1),
                          found_h5055 := True, h5055_address := Some address\<rparr>)
         else (None, st1))"

definition log_error :: "log_entry \<Rightarrow> state \<Rightarrow> state" where
  "log_error e st = st\<lparr>error_log := error_log st @ [e]\<rparr>"

text \<open>The callback of \<open>scan_for_devices\<close>; the flag is its \<open>found_this_scan\<close>.\<close>

definition discovery_callback :: "advertisement \<Rightarrow> bool \<times> state \<Rightarrow> bool \<times> state" where
  "discovery_callback adv = (\<lambda>(found_this_scan, st).
     case process_advertisement adv st of
       (None, st1) \<Rightarrow> (if found_h5055 st1 then True else found_this_scan, st1)
     | (Some e, st1) \<Rightarrow> (found_this_scan, log_error (AdvertisementErrorLogged (adv_address adv)) st1))"

definition scan_for_devices :: "scan_outcome \<Rightarrow> state \<Rightarrow> bool \<times> state" where
  "scan_for_devices outcome st =
     (let st0 = st\<lparr>processed_devices := {}\<rparr>
      in case outcome of
           StartFails \<Rightarrow> (False, log_error ScanErrorLogged st0)
         | StopFails ads \<Rightarrow>
             (let (found_this_scan, st1) = fold discovery_callback ads (False, st0)
              in (False, log_error ScanErrorLogged st1))
         | Completes ads \<Rightarrow>
             (let (found_this_scan, st1) = fold discovery_callback ads (False, st0)
              in (found_this_scan \<or> found_h5055 st1, st1)))"

text \<open>
  The callback of \<open>scan_specific_device\<close>. Its \<open>device_address\<close> is the global
  \<open>h5055_address\<close>, which is \<open>None\<close> until a device is found.
\<close>

definition monitoring_callback :: "device_address option \<Rightarrow> advertisement \<Rightarrow> state \<Rightarrow> state" where
  "monitoring_callback device_address adv st =
     (if Some (adv_address adv) = device_address
      then (case process_advertisement adv st of
              (None, st1) \<Rightarrow> st1
            | (Some e, st1) \<Rightarrow> log_error (AdvertisementErrorLogged (adv_address adv)) st1)
      else st)"

definition scan_specific_device :: "device_address option \<Rightarrow> scan_outcome \<Rightarrow> state \<Rightarrow> state" where
  "scan_specific_device device_address outcome st =
     (case outcome of
        StartFails \<Rightarrow> log_error ScanErrorLogged st
      | StopFails ads \<Rightarrow> log_error ScanErrorLogged (fold (monitoring_callback device_address) ads st)
      | Completes ads \<Rightarrow> fold (monitoring_callback device_address) ads st)"

section \<open>The run: \<open>main_loop\<close>\<close>

text \<open>
  \<open>main_loop\<close> runs two loops, the first until a device is found, the second for ever.
  A state of the run is the module's globals, the loop the program is at (\<open>Stopped\<close> with
  the exit status once it has left both) and the local \<open>scan_count\<close>. One step is one
  pass through the loop at hand, on what the environment supplies for it: the outcome of
  the scan and two clock readings, or the user's interrupt.
\<close>

datatype phase = Searching | Monitoring | Stopped nat

datatype event = Cycle scan_outcome datetime datetime | Interrupt

record run_state =
  globals :: state
  phase :: phase
  scan_count :: nat

definition initial_run :: "csv_file \<Rightarrow> run_state" where
  "initial_run f = \<lparr>globals = initial_state f, phase = Searching, scan_count = 0\<rparr>"

text \<open>Lines 223 to 228: the first loop is left, the start time is taken.\<close>

definition start_monitoring :: "datetime \<Rightarrow> run_state \<Rightarrow> run_state" where
  "start_monitoring now rs =
     rs\<lparr>globals := (globals rs)\<lparr>monitoring_start_time := Some now\<rparr>, phase := Monitoring\<rparr>"

definition main_step :: "(real \<Rightarrow> string) \<Rightarrow> event \<Rightarrow> run_state \<Rightarrow> run_state" where
  "main_step fmt ev rs =
     (case phase rs of
        Stopped c \<Rightarrow> rs
      | Searching \<Rightarrow>
          (case ev of
             Interrupt \<Rightarrow> rs\<lparr>phase := Stopped 0\<rparr>
           | Cycle outcome now_start now \<Rightarrow>
               if found_h5055 (globals rs) then start_monitoring now_start rs
               else
                 (let (found, st1) = scan_for_devices outcome (globals rs);
                      rs1 = rs\<lparr>globals := st1, scan_count := scan_count rs + 1\<rparr>
                  in if found then start_monitoring now_start rs1 else rs1))
      | Monitoring \<Rightarrow>
          (case ev of
             Interrupt \<Rightarrow> rs\<lparr>phase := Stopped 0\<rparr>
           | Cycle outcome now_start now \<Rightarrow>
               (let st0 = (globals rs)\<lparr>processed_devices := {}\<rparr>;
                    st1 = scan_specific_device (h5055_address st0) outcome st0;
                    (err, st2) = print_temperature_readings fmt now_start now st1
                in case err of
                     None \<Rightarrow> rs\<lparr>globals := st2\<rparr>
                   | Some e \<Rightarrow> rs\<lparr>globals := log_error MainLoopErrorLogged st2, phase := Stopped 1\<rparr>)))"

definition run :: "(real \<Rightarrow> string) \<Rightarrow> event list \<Rightarrow> run_state \<Rightarrow> run_state" where
  "run fmt evs rs = fold (main_step fmt) evs rs"

section \<open>A formatter for the examples\<close>

text \<open>
  One decimal place, ties to even, as \<open>.1f\<close> prints the real number a float denotes. It
  is used only to run the model on concrete readings.
\<close>

definition round_half_even :: "real \<Rightarrow> int" where
  "round_half_even y =
     (let f = \<lfloor>y\<rfloor>; r = y - of_int f
      in if r < 1 / 2 then f else if 1 / 2 < r then f + 1 else if even f then f else f + 1)"

definition format_1f :: "real \<Rightarrow> string" where
  "format_1f x =
     (let n = round_half_even (\<bar>x\<bar> * 10)
      in (if x < 0 then ''-'' else []) @ str_int (n div 10) @ ''.'' @ [digit_char (nat (n mod 10))])"

section \<open>Further notions used in the statements\<close>

text \<open>Every stored temperature is a number greater than zero.\<close>

definition stored_positive :: "temp_data \<Rightarrow> bool" where
  "stored_positive td = list_all (\<lambda>(a, ps). list_all (\<lambda>(pid, t). positive_temp t) ps) td"

section \<open>The persister's output, as the specification describes it\<close>

text \<open>
  The probe ids of all devices of the store; the column list over them; the cell of a
  probe column (empty when the device has no such probe); the row of a device; the rows
  of a snapshot, one for each device that has readings; and a file extended by rows, with
  the header first when the file does not exist.
\<close>

definition observed_probe_ids :: "temp_data \<Rightarrow> probe_id set" where
  "observed_probe_ids td = (\<Union>(a, ps) \<in> set td. fst ` set ps)"

definition expected_columns :: "temp_data \<Rightarrow> string list" where
  "expected_columns td =
     ''t_plus'' # ''device'' # map probe_column (sorted_list_of_set (observed_probe_ids td))"

definition printable :: "probes \<Rightarrow> bool" where
  "printable ps = list_all (\<lambda>(pid, t). t \<noteq> None) ps"

definition expected_cell :: "(real \<Rightarrow> string) \<Rightarrow> probes \<Rightarrow> probe_id \<Rightarrow> string" where
  "expected_cell fmt ps pid = (case map_of ps pid of Some (Some x) \<Rightarrow> fmt x | _ \<Rightarrow> [])"

definition expected_row ::
  "(real \<Rightarrow> string) \<Rightarrow> string \<Rightarrow> temp_data \<Rightarrow> device_address \<Rightarrow> probes \<Rightarrow> string list" where
  "expected_row fmt t_plus td a ps =
     t_plus # a # map (expected_cell fmt ps) (sorted_list_of_set (observed_probe_ids td))"

definition snapshot_rows :: "(real \<Rightarrow> string) \<Rightarrow> string \<Rightarrow> temp_data \<Rightarrow> temp_data \<Rightarrow> string list list" where
  "snapshot_rows fmt t_plus td items =
     map (\<lambda>(a, ps). expected_row fmt t_plus td a ps) (filter (\<lambda>(a, ps). ps \<noteq> []) items)"

definition append_rows :: "csv_file \<Rightarrow> string list \<Rightarrow> string list list \<Rightarrow> csv_file" where
  "append_rows f h rows =
     (if rows = [] then f
      else Some (file_lines f @ (if f = None then [Header h] else []) @ map Row rows))"

text \<open>
  A dict has each key once: the keys of \<open>temp_data\<close> and of each device's probes are
  distinct. No stored temperature is \<open>None\<close>.
\<close>

definition keys_distinct :: "temp_data \<Rightarrow> bool" where
  "keys_distinct td = (distinct (map fst td) \<and> list_all (\<lambda>(a, ps). distinct (map fst ps)) td)"

definition no_null_readings :: "temp_data \<Rightarrow> bool" where
  "no_null_readings td = list_all (\<lambda>(a, ps). printable ps) td"

text \<open>
  The start instant a snapshot uses, and the elapsed-time string it writes.
\<close>

definition start_instant :: "datetime \<Rightarrow> state \<Rightarrow> datetime" where
  "start_instant now_start st = (case monitoring_start_time st of None \<Rightarrow> now_start | Some s \<Rightarrow> s)"

definition t_plus_of :: "datetime \<Rightarrow> datetime \<Rightarrow> state \<Rightarrow> string" where
  "t_plus_of now_start now st = format_elapsed_time now (start_instant now_start st)"

text \<open>
  A later state \<open>f'\<close> of the file \<open>f\<close> in which the header was written at most once, and
  then first: an existing file has grown by data rows only; a file that did not exist is
  still absent, or is one header line followed by data rows only.
\<close>

fun is_row :: "csv_line \<Rightarrow> bool" where
  "is_row (Row r) = True"
| "is_row (Header h) = False"

definition header_once :: "csv_file \<Rightarrow> csv_file \<Rightarrow> bool" where
  "header_once f f' =
     (case f of
        Some ls \<Rightarrow>
          (case f' of
             None \<Rightarrow> False
           | Some ls' \<Rightarrow> take (length ls) ls' = ls \<and> list_all is_row (drop (length ls) ls'))
      | None \<Rightarrow>
          (case f' of
             None \<Rightarrow> True
           | Some ls' \<Rightarrow>
               (case ls' of [] \<Rightarrow> False | l # rest \<Rightarrow> \<not> is_row l \<and> list_all is_row rest)))"

text \<open>
  The advertisements a scan delivered, whether it failed, and the updates the decoder
  made for a list of advertisements, each paired with the address of its advertisement.
\<close>

fun delivered :: "scan_outcome \<Rightarrow> advertisement list" where
  "delivered StartFails = []"
| "delivered (StopFails ads) = ads"
| "delivered (Completes ads) = ads"

fun scan_failed :: "scan_outcome \<Rightarrow> bool" where
  "scan_failed StartFails = True"
| "scan_failed (StopFails ads) = True"
| "scan_failed (Completes ads) = False"

definition advertised_updates :: "advertisement list \<Rightarrow> (device_address \<times> probe_update) list" where
  "advertised_updates ads = concat (map (\<lambda>adv. map (Pair (adv_address adv)) (adv_updates adv)) ads)"

section \<open>Concrete stores, advertisements and runs\<close>

text \<open>
  Two devices, \<open>AA\<close> with probes 1 and 2 and \<open>BB\<close> with probe 1; a state holding them; the
  same state with a file whose header has the column of probe 1 only; an advertisement of
  the target type and one of another device; and the run after a first discovery scan
  that delivered both.
\<close>

definition two_device_store :: temp_data where
  "two_device_store = [(''AA'', [(1, Some 63.5), (2, Some 21)]), (''BB'', [(1, Some 5)])]"

definition example_state :: state where
  "example_state =
     (initial_state None)\<lparr>temp_data := two_device_store, monitoring_start_time := Some 0\<rparr>"

definition example_state_with_file :: state where
  "example_state_with_file =
     example_state\<lparr>csv_file :=
       Some [Header [''t_plus'', ''device'', ''probe_1''], Row [''0:00:10'', ''AA'', ''63.5'']]\<rparr>"

definition adv_target :: advertisement where
  "adv_target =
     \<lparr>adv_address = ''AA'', adv_device_type = Some ''H5055'',
      adv_updates = [WithAlarm (Some 63.5) None 1 None, WithAlarm (Some 21) None 2 None],
      adv_decoder_raises = False\<rparr>"

definition adv_other :: advertisement where
  "adv_other =
     \<lparr>adv_address = ''BB'', adv_device_type = Some ''H5075'',
      adv_updates = [Plain (Some 5) 1], adv_decoder_raises = False\<rparr>"

definition locked_run :: run_state where
  "locked_run =
     main_step format_1f (Cycle (Completes [adv_other, adv_target]) 100 100) (initial_run None)"

section \<open>What the Reading Store holds after an update\<close>

lemma reading_update_temp_probe:
  "reading (update_temp_probe a t pid td) a' pid' =
     (if a' = a \<and> pid' = pid then Some t else reading td a' pid')"
  by (auto simp: reading_def update_temp_probe_def Let_def update_conv' split: option.splits)

lemma update_temp_probe_present:
  "\<exists>ps. map_of (update_temp_probe a t pid td) a = Some ps \<and> map_of ps pid = Some t"
  by (auto simp: update_temp_probe_def Let_def update_conv' split: option.splits)

lemma update_temp_probe_again:
  "(case map_of (update_temp_probe a t pid td) a of
      None \<Rightarrow> update_temp_probe a t pid td
    | Some ps \<Rightarrow> AList.update a (AList.update pid t ps) (update_temp_probe a t pid td))
   = update_temp_probe a t pid td"
proof -
  obtain ps where m: "map_of (update_temp_probe a t pid td) a = Some ps"
    and q: "map_of ps pid = Some t"
    using update_temp_probe_present by blast
  from q have "AList.update pid t ps = ps" by (rule update_triv)
  moreover from m have "AList.update a ps (update_temp_probe a t pid td)
      = update_temp_probe a t pid td" by (rule update_triv)
  ultimately show ?thesis using m by simp
qed

text \<open>
  The guard of line 61 changes nothing: whatever it decides, the call of line 56 has
  stored the temperature already.
\<close>

lemma update_temp_probe_with_alarm_stores:
  "update_temp_probe_with_alarm a t alarm pid low td = update_temp_probe a t pid td"
proof -
  obtain ps where m: "map_of (update_temp_probe a t pid td) a = Some ps"
    using update_temp_probe_present by blast
  then have e: "(if map_of (update_temp_probe a t pid td) a = None
         then AList.update a [] (update_temp_probe a t pid td)
         else update_temp_probe a t pid td) = update_temp_probe a t pid td"
    by simp
  show ?thesis
    unfolding update_temp_probe_with_alarm_def base_update_temp_probe_with_alarm_def Let_def e
    by (simp add: update_temp_probe_again)
qed

lemma apply_update_stores:
  "apply_update a u td = update_temp_probe a (update_temp u) (update_probe u) td"
  by (cases u) (simp_all add: update_temp_probe_with_alarm_stores)

lemma reading_apply_update:
  "reading (apply_update a u td) a' pid' =
     (if a' = a \<and> pid' = update_probe u then Some (update_temp u) else reading td a' pid')"
  by (simp add: apply_update_stores reading_update_temp_probe)

lemma apply_updates_snoc:
  "apply_updates (us @ [(a, u)]) td = apply_update a u (apply_updates us td)"
  by (simp add: apply_updates_def)

lemma last_update_snoc:
  "last_update a' pid' (us @ [(a, u)]) =
     (if a = a' \<and> update_probe u = pid' then Some (update_temp u) else last_update a' pid' us)"
  by (simp add: last_update_def)

lemma reading_apply_updates:
  "reading (apply_updates us td) a pid =
     (case last_update a pid us of None \<Rightarrow> reading td a pid | Some t \<Rightarrow> Some t)"
proof (induction us rule: rev_induct)
  case Nil
  show ?case by (simp add: apply_updates_def last_update_def)
next
  case (snoc x us)
  obtain a' u where x: "x = (a', u)" by (cases x)
  show ?case
    unfolding x apply_updates_snoc reading_apply_update last_update_snoc
    using snoc.IH by auto
qed

lemma final_reading_is_last_update:
  "reading (apply_updates us []) a pid = last_update a pid us"
proof -
  have "reading [] a pid = None" by (simp add: reading_def)
  then show ?thesis
    unfolding reading_apply_updates [of us "[]" a pid] by (simp split: option.splits)
qed

text \<open>
  Claim C1, on the code. The claim says that the stored value is the temperature of the
  last accepted update, where an alarm-bearing update is accepted only with a temperature
  that is not \<open>None\<close> and greater than zero. The code stores the temperature of the last
  update of either kind: after a plain update with 63.2 and an alarm-bearing update
  with -1 for the same probe, the store holds -1, and the last accepted update is the one
  with 63.2.
\<close>

theorem alarm_update_replaces_accepted_reading:
  "reading (apply_updates
      [(''AA:BB'', Plain (Some 63.2) 1), (''AA:BB'', WithAlarm (Some (-1)) None 1 None)] [])
      ''AA:BB'' 1 = Some (Some (-1))
   \<and> last_accepted ''AA:BB'' 1
      [(''AA:BB'', Plain (Some 63.2) 1), (''AA:BB'', WithAlarm (Some (-1)) None 1 None)]
      = Some (Some 63.2)
   \<and> (\<forall>us a pid. reading (apply_updates us []) a pid = last_update a pid us)"
proof -
  have "reading (apply_updates
      [(''AA:BB'', Plain (Some 63.2) 1), (''AA:BB'', WithAlarm (Some (-1)) None 1 None)] [])
      ''AA:BB'' 1 = Some (Some (-1))"
    by (simp add: final_reading_is_last_update last_update_def)
  moreover have "last_accepted ''AA:BB'' 1
      [(''AA:BB'', Plain (Some 63.2) 1), (''AA:BB'', WithAlarm (Some (-1)) None 1 None)]
      = Some (Some 63.2)"
    by (simp add: last_accepted_def)
  ultimately show ?thesis by (simp add: final_reading_is_last_update)
qed

section \<open>Decimal rendering and the elapsed-time format\<close>

lemma digit_char_cases:
  "d < 10 \<Longrightarrow> d = 0 \<or> d = 1 \<or> d = 2 \<or> d = 3 \<or> d = 4 \<or> d = 5 \<or> d = 6 \<or> d = 7 \<or> d = 8 \<or> d = (9::nat)"
  by arith

lemma digit_value_digit_char: "d < 10 \<Longrightarrow> digit_value (digit_char d) = d"
  using digit_char_cases [of d] by (auto simp: digit_value_def digit_char_def)

lemma digit_char_not_minus: "d < 10 \<Longrightarrow> digit_char d \<noteq> CHR ''-''"
  using digit_char_cases [of d] by (auto simp: digit_char_def)

lemma read_nat_snoc: "read_nat (s @ [c]) = 10 * read_nat s + digit_value c"
  by (simp add: read_nat_def)

lemma read_nat_str_nat: "read_nat (str_nat n) = n"
proof (induction n rule: str_nat.induct)
  case (1 n)
  show ?case
  proof (cases "n < 10")
    case True
    then show ?thesis by (subst str_nat.simps) (simp add: read_nat_def digit_value_digit_char)
  next
    case False
    then have "read_nat (str_nat n) = 10 * read_nat (str_nat (n div 10)) + digit_value (digit_char (n mod 10))"
      by (subst str_nat.simps) (simp add: read_nat_snoc)
    also have "\<dots> = 10 * (n div 10) + n mod 10"
      using 1 False by (simp add: digit_value_digit_char)
    finally show ?thesis by simp
  qed
qed

lemma str_nat_inj: "str_nat m = str_nat n \<Longrightarrow> m = n"
  by (metis read_nat_str_nat)

lemma str_nat_hd: "\<exists>d cs. d < 10 \<and> str_nat n = digit_char d # cs"
proof (induction n rule: str_nat.induct)
  case (1 n)
  show ?case
  proof (cases "n < 10")
    case True
    then show ?thesis by (subst str_nat.simps) auto
  next
    case False
    with 1 obtain d cs where "d < 10" "str_nat (n div 10) = digit_char d # cs" by blast
    with False show ?thesis by (subst str_nat.simps) auto
  qed
qed

lemma str_nat_not_minus: "str_nat n \<noteq> CHR ''-'' # cs"
proof
  assume a: "str_nat n = CHR ''-'' # cs"
  obtain d ds where "d < 10" "str_nat n = digit_char d # ds"
    using str_nat_hd [of n] by blast
  with a have "digit_char d = CHR ''-''" by simp
  with \<open>d < 10\<close> show False by (simp add: digit_char_not_minus)
qed

lemma str_int_inj: "str_int i = str_int j \<Longrightarrow> i = j"
proof -
  assume e: "str_int i = str_int j"
  consider "i < 0" "j < 0" | "i < 0" "\<not> j < 0" | "\<not> i < 0" "j < 0" | "\<not> i < 0" "\<not> j < 0"
    by blast
  then show ?thesis
  proof cases
    case 1
    with e have "str_nat (nat (- i)) = str_nat (nat (- j))" by (simp add: str_int_def)
    then have "nat (- i) = nat (- j)" by (rule str_nat_inj)
    with 1 show ?thesis by simp
  next
    case 2
    with e have "str_nat (nat j) = CHR ''-'' # str_nat (nat (- i))" by (simp add: str_int_def)
    then show ?thesis by (simp add: str_nat_not_minus)
  next
    case 3
    with e have "str_nat (nat i) = CHR ''-'' # str_nat (nat (- j))" by (simp add: str_int_def)
    then show ?thesis by (simp add: str_nat_not_minus)
  next
    case 4
    with e have "str_nat (nat i) = str_nat (nat j)" by (simp add: str_int_def)
    then have "nat i = nat j" by (rule str_nat_inj)
    with 4 show ?thesis by simp
  qed
qed

lemma probe_column_inj: "probe_column p = probe_column q \<Longrightarrow> p = q"
  by (simp add: probe_column_def str_int_inj)

lemma str_nat_digit: "n < 10 \<Longrightarrow> str_nat n = [digit_char n]"
  by (subst str_nat.simps) simp

lemma str_nat_two: "10 \<le> n \<Longrightarrow> n < 100 \<Longrightarrow> str_nat n = [digit_char (n div 10), digit_char (n mod 10)]"
  by (subst str_nat.simps) (simp add: str_nat_digit)

lemma fmt_02d_two_digits: "0 \<le> k \<Longrightarrow> k < 100 \<Longrightarrow> fmt_02d k = two_digits k"
proof -
  assume k: "0 \<le> k" "k < 100"
  show ?thesis
  proof (cases "k < 10")
    case True
    with k have "nat k < 10" "nat (k div 10) = 0" "nat (k mod 10) = nat k" by auto
    with k True show ?thesis
      by (simp add: fmt_02d_def two_digits_def str_int_def str_nat_digit digit_char_def)
  next
    case False
    with k have n: "10 \<le> nat k" "nat k < 100" by auto
    have "nat k div 10 = nat (k div 10)" "nat k mod 10 = nat (k mod 10)"
      using k by (simp_all add: nat_div_distrib nat_mod_distrib)
    with k False n show ?thesis
      by (simp add: fmt_02d_def two_digits_def str_int_def str_nat_two)
  qed
qed

lemma elapsed_parts:
  assumes "0 \<le> x"
  shows "py_int (py_floordiv x 3600) = \<lfloor>x\<rfloor> div 3600"
    and "py_int (py_floordiv (py_mod x 3600) 60) = (\<lfloor>x\<rfloor> div 60) mod 60"
    and "py_int (py_mod x 60) = \<lfloor>x\<rfloor> mod 60"
proof -
  have f: "\<And>b. 0 < b \<Longrightarrow> \<lfloor>x / real_of_int b\<rfloor> = \<lfloor>x\<rfloor> div b"
    by (rule floor_divide_real_eq_div) simp
  from f [of 3600] have h: "\<lfloor>x / 3600\<rfloor> = \<lfloor>x\<rfloor> div 3600" by simp
  from f [of 60] have m: "\<lfloor>x / 60\<rfloor> = \<lfloor>x\<rfloor> div 60" by simp
  have x0: "0 \<le> \<lfloor>x\<rfloor>" using assms by simp
  show "py_int (py_floordiv x 3600) = \<lfloor>x\<rfloor> div 3600"
    using x0 by (simp add: py_int_def py_floordiv_def h pos_imp_zdiv_neg_iff)
  have r: "py_mod x 3600 = x - of_int (3600 * (\<lfloor>x\<rfloor> div 3600))"
    by (simp add: py_mod_def h)
  have fr: "\<lfloor>py_mod x 3600\<rfloor> = \<lfloor>x\<rfloor> mod 3600"
    unfolding r floor_diff_of_int by (simp add: minus_mult_div_eq_mod)
  have "\<lfloor>py_mod x 3600 / 60\<rfloor> = \<lfloor>py_mod x 3600\<rfloor> div 60"
    using floor_divide_real_eq_div [of 60 "py_mod x 3600"] by simp
  also have "\<dots> = (\<lfloor>x\<rfloor> div 60) mod 60"
  proof -
    have "\<lfloor>x\<rfloor> mod 3600 = 60 * (\<lfloor>x\<rfloor> div 60 mod 60) + \<lfloor>x\<rfloor> mod 60"
      using zmod_zmult2_eq [of 60 "\<lfloor>x\<rfloor>" 60] by simp
    then show ?thesis unfolding fr by simp
  qed
  finally have mm: "\<lfloor>py_mod x 3600 / 60\<rfloor> = (\<lfloor>x\<rfloor> div 60) mod 60" .
  show "py_int (py_floordiv (py_mod x 3600) 60) = (\<lfloor>x\<rfloor> div 60) mod 60"
    by (simp add: py_int_def py_floordiv_def mm)
  have s: "py_mod x 60 = x - of_int (60 * (\<lfloor>x\<rfloor> div 60))"
    by (simp add: py_mod_def m)
  have fs: "\<lfloor>py_mod x 60\<rfloor> = \<lfloor>x\<rfloor> mod 60"
    unfolding s floor_diff_of_int by (simp add: minus_mult_div_eq_mod)
  have nn: "\<not> py_mod x 60 < 0"
  proof -
    have "0 \<le> \<lfloor>py_mod x 60\<rfloor>" unfolding fs by simp
    then show ?thesis by (simp add: not_less)
  qed
  show "py_int (py_mod x 60) = \<lfloor>x\<rfloor> mod 60"
    using nn by (simp add: py_int_def fs)
qed

text \<open>
  Claim C7. For every non-negative elapsed duration in seconds the formatter gives
  \<open>H:MM:SS\<close> for the whole seconds of the duration: the hours as a plain decimal number,
  the minutes and the seconds as two decimal digits each. In particular 3661 seconds
  give \<open>1:01:01\<close> and 59 seconds give \<open>0:00:59\<close>.
\<close>

theorem format_elapsed_seconds_hms:
  assumes "0 \<le> x"
  shows "format_elapsed_seconds x = hms_string \<lfloor>x\<rfloor>
         \<and> format_elapsed_seconds 3661 = ''1:01:01''
         \<and> format_elapsed_seconds 59 = ''0:00:59''"
proof -
  have m: "fmt_02d ((\<lfloor>x\<rfloor> div 60) mod 60) = two_digits ((\<lfloor>x\<rfloor> div 60) mod 60)"
    by (rule fmt_02d_two_digits) simp_all
  have s: "fmt_02d (\<lfloor>x\<rfloor> mod 60) = two_digits (\<lfloor>x\<rfloor> mod 60)"
    by (rule fmt_02d_two_digits) simp_all
  have g: "format_elapsed_seconds x = hms_string \<lfloor>x\<rfloor>"
    using m s by (simp add: format_elapsed_seconds_def hms_string_def elapsed_parts [OF assms])
  have e1: "format_elapsed_seconds 3661 = ''1:01:01''"
    by (simp add: format_elapsed_seconds_def py_int_def py_floordiv_def py_mod_def str_int_def
        fmt_02d_def digit_char_def str_nat_digit)
  have e2: "format_elapsed_seconds 59 = ''0:00:59''"
    by (simp add: format_elapsed_seconds_def py_int_def py_floordiv_def py_mod_def str_int_def
        fmt_02d_def digit_char_def str_nat_digit str_nat_two)
  from g e1 e2 show ?thesis by simp
qed

theorem format_elapsed_seconds_hms_witness:
  "(0::real) \<le> 7325.5 \<and> format_elapsed_seconds 7325.5 = ''2:02:05''"
proof -
  have h: "(0::real) \<le> 7325.5" by simp
  have f: "\<lfloor>7325.5::real\<rfloor> = 7325" by (simp add: floor_eq_iff)
  have "hms_string 7325 = ''2:02:05''"
    by (simp add: hms_string_def two_digits_def str_int_def str_nat_digit digit_char_def)
  with format_elapsed_seconds_hms [OF h] f h show ?thesis by simp
qed

section \<open>What an update can store\<close>

lemma list_all_update:
  "list_all P al \<Longrightarrow> P (k, v) \<Longrightarrow> list_all P (AList.update k v al)"
  by (induction al) auto

lemma map_of_list_all: "list_all P al \<Longrightarrow> map_of al k = Some v \<Longrightarrow> P (k, v)"
  by (induction al) (auto split: if_splits)

text \<open>
  Claim C2, on the code. The claim says that no update overwrites a stored entry with
  \<open>None\<close>, zero or a negative value. The guard of line 61 is there for it, but the call of
  line 56 has stored the temperature before the guard is reached: after a stored 63.5, an
  alarm-bearing update with -1, with 0 or with \<open>None\<close> replaces it. A plain update stores
  its temperature whatever it is, too.
\<close>

theorem alarm_update_stores_rejected_value:
  "reading (apply_updates [(''AA'', WithAlarm (Some 63.5) None 1 None)] []) ''AA'' 1
     = Some (Some 63.5)
   \<and> stored_positive (apply_updates [(''AA'', WithAlarm (Some 63.5) None 1 None)] [])
   \<and> reading (apply_updates
        [(''AA'', WithAlarm (Some 63.5) None 1 None), (''AA'', WithAlarm (Some (-1)) None 1 None)] [])
        ''AA'' 1 = Some (Some (-1))
   \<and> \<not> stored_positive (apply_updates
        [(''AA'', WithAlarm (Some 63.5) None 1 None), (''AA'', WithAlarm (Some (-1)) None 1 None)] [])
   \<and> reading (apply_updates
        [(''AA'', WithAlarm (Some 63.5) None 1 None), (''AA'', WithAlarm (Some 0) None 1 None)] [])
        ''AA'' 1 = Some (Some 0)
   \<and> reading (apply_updates
        [(''AA'', WithAlarm (Some 63.5) None 1 None), (''AA'', WithAlarm None None 1 None)] [])
        ''AA'' 1 = Some None
   \<and> reading (apply_updates
        [(''AA'', WithAlarm (Some 63.5) None 1 None), (''AA'', Plain (Some (-1)) 1)] [])
        ''AA'' 1 = Some (Some (-1))"
  by code_simp

section \<open>Field names and rows of a snapshot\<close>

lemma fold_union_keys:
  "fold (\<lambda>(a, dev_probes) ids. ids \<union> set (map fst dev_probes)) td S =
     S \<union> (\<Union>(a, ps) \<in> set td. fst ` set ps)"
  by (induction td arbitrary: S) auto

lemma all_probe_ids_observed: "all_probe_ids td = observed_probe_ids td"
  using fold_union_keys [of td "{}"] by (simp add: all_probe_ids_def observed_probe_ids_def)

lemma finite_observed: "finite (observed_probe_ids td)"
  by (auto simp: observed_probe_ids_def)

lemma fold_append_column:
  "fold (\<lambda>pid fs. fs @ [g pid]) xs acc = acc @ map g xs"
  by (induction xs arbitrary: acc) auto

lemma fieldnames_expected: "fieldnames td = expected_columns td"
  by (simp add: fieldnames_def expected_columns_def fold_append_column all_probe_ids_observed)

lemma length_fieldnames: "length (fieldnames td) = 2 + card (observed_probe_ids td)"
  by (simp add: fieldnames_expected expected_columns_def)

lemma probe_ids_strictly_ascending:
  "sorted_wrt (<) (sorted_list_of_set (observed_probe_ids td))"
  by (simp add: strict_sorted_iff)

lemma format_temp_Inr: "format_temp fmt t = Inr s \<longleftrightarrow> (\<exists>x. t = Some x \<and> s = fmt x)"
  by (cases t) auto

lemma format_temp_Inl: "format_temp fmt t = Inl e \<longleftrightarrow> (t = None \<and> e = TypeError)"
  by (cases t) auto

lemma print_probes_None: "print_probes fmt ps = None \<longleftrightarrow> printable ps"
  by (induction ps) (auto simp: printable_def format_temp_Inr format_temp_Inl split: sum.splits)

lemma probe_column_not_fixed:
  "probe_column p \<noteq> ''t_plus''" "probe_column p \<noteq> ''device''"
  by (simp_all add: probe_column_def)

lemma fill_row_Inr:
  "printable ps \<Longrightarrow> \<exists>rd'. fill_row fmt ps rd = Inr rd'"
  by (induction ps arbitrary: rd) (auto simp: printable_def)

lemma fill_row_keys:
  "fill_row fmt ps rd = Inr rd' \<Longrightarrow> fst ` set rd' = fst ` set rd \<union> probe_column ` fst ` set ps"
proof (induction ps arbitrary: rd)
  case Nil
  then show ?case by simp
next
  case (Cons x ps)
  obtain pid t where x: "x = (pid, t)" by (cases x)
  from Cons.prems x obtain s where s: "format_temp fmt t = Inr s"
    and r: "fill_row fmt ps (AList.update (probe_column pid) s rd) = Inr rd'"
    by (auto split: sum.splits)
  from Cons.IH [OF r] show ?case by (auto simp: x dom_update)
qed

lemma fill_row_other:
  "fill_row fmt ps rd = Inr rd' \<Longrightarrow> k \<notin> probe_column ` fst ` set ps \<Longrightarrow> map_of rd' k = map_of rd k"
proof (induction ps arbitrary: rd)
  case Nil
  then show ?case by simp
next
  case (Cons x ps)
  obtain pid t where x: "x = (pid, t)" by (cases x)
  from Cons.prems x obtain s where s: "format_temp fmt t = Inr s"
    and r: "fill_row fmt ps (AList.update (probe_column pid) s rd) = Inr rd'"
    by (auto split: sum.splits)
  from Cons.prems(2) x have k: "k \<notin> probe_column ` fst ` set ps" "k \<noteq> probe_column pid" by auto
  from Cons.IH [OF r k(1)] k(2) show ?case by (simp add: update_conv')
qed

lemma fill_row_probe:
  assumes "fill_row fmt ps rd = Inr rd'" and "distinct (map fst ps)" and "map_of ps p = Some t"
  shows "\<exists>x. t = Some x \<and> map_of rd' (probe_column p) = Some (fmt x)"
  using assms
proof (induction ps arbitrary: rd)
  case Nil
  then show ?case by simp
next
  case (Cons y ps)
  obtain pid u where y: "y = (pid, u)" by (cases y)
  from Cons.prems(1) y obtain s where s: "format_temp fmt u = Inr s"
    and r: "fill_row fmt ps (AList.update (probe_column pid) s rd) = Inr rd'"
    by (auto split: sum.splits)
  show ?case
  proof (cases "p = pid")
    case True
    with Cons.prems(3) y have tu: "t = u" by simp
    from s obtain x where ux: "u = Some x" and sx: "s = fmt x" by (cases u) auto
    from Cons.prems(2) y True have "p \<notin> fst ` set ps" by auto
    then have "probe_column p \<notin> probe_column ` fst ` set ps"
      by (auto dest: probe_column_inj)
    from fill_row_other [OF r this] True
    have "map_of rd' (probe_column p) = Some s" by (simp add: update_conv')
    with tu ux sx show ?thesis by simp
  next
    case False
    with Cons.prems y have "distinct (map fst ps)" "map_of ps p = Some t" by auto
    from Cons.IH [OF r this] show ?thesis .
  qed
qed

lemma distinct_sorted_items: "distinct (map fst ps) \<Longrightarrow> distinct (map fst (sorted_items ps))"
  by (simp add: sorted_items_def distinct_map)

lemma set_sorted_items: "set (sorted_items ps) = set ps"
  by (simp add: sorted_items_def)

lemma map_of_sorted_items: "distinct (map fst ps) \<Longrightarrow> map_of (sorted_items ps) = map_of ps"
  using map_of_inject_set [of "sorted_items ps" ps]
  by (simp add: distinct_sorted_items set_sorted_items)

lemma printable_sorted_items: "printable (sorted_items ps) = printable ps"
  by (simp add: printable_def list_all_iff set_sorted_items)

lemma observed_probe_idsI: "(a, ps) \<in> set td \<Longrightarrow> p \<in> fst ` set ps \<Longrightarrow> p \<in> observed_probe_ids td"
  by (auto simp: observed_probe_ids_def)

lemma map_of_None_column:
  assumes "map_of ps p = None"
  shows "probe_column p \<notin> probe_column ` fst ` set ps"
proof
  assume "probe_column p \<in> probe_column ` fst ` set ps"
  then obtain q where q: "q \<in> fst ` set ps" "probe_column p = probe_column q" by auto
  from q(2) have "p = q" by (rule probe_column_inj)
  with q(1) assms show False by (simp add: map_of_eq_None_iff)
qed

lemma row_cell:
  assumes fr: "fill_row fmt (sorted_items ps) [(''t_plus'', tp), (''device'', a)] = Inr rd"
    and d: "distinct (map fst ps)"
  shows "(case map_of rd (probe_column p) of None \<Rightarrow> [] | Some v \<Rightarrow> v) = expected_cell fmt ps p"
proof (cases "map_of ps p")
  case None
  then have "probe_column p \<notin> probe_column ` fst ` set (sorted_items ps)"
    using map_of_None_column [of ps p] by (simp add: set_sorted_items)
  from fill_row_other [OF fr this] None show ?thesis
    by (simp add: expected_cell_def probe_column_not_fixed)
next
  case (Some t)
  with d have "map_of (sorted_items ps) p = Some t" by (simp add: map_of_sorted_items)
  from fill_row_probe [OF fr distinct_sorted_items [OF d] this] Some show ?thesis
    by (auto simp: expected_cell_def)
qed

lemma row_fixed_cells:
  assumes fr: "fill_row fmt (sorted_items ps) [(''t_plus'', tp), (''device'', a)] = Inr rd"
  shows "map_of rd ''t_plus'' = Some tp" and "map_of rd ''device'' = Some a"
proof -
  have "''t_plus'' \<notin> probe_column ` fst ` set (sorted_items ps)"
    using probe_column_not_fixed(1) by (metis imageE)
  from fill_row_other [OF fr this] show "map_of rd ''t_plus'' = Some tp" by simp
  have "''device'' \<notin> probe_column ` fst ` set (sorted_items ps)"
    using probe_column_not_fixed(2) by (metis imageE)
  from fill_row_other [OF fr this] show "map_of rd ''device'' = Some a" by simp
qed

lemma row_cells:
  assumes m: "(a, ps) \<in> set td" and d: "distinct (map fst ps)"
    and fr: "fill_row fmt (sorted_items ps) [(''t_plus'', tp), (''device'', a)] = Inr rd"
  shows "dict_to_list (fieldnames td) rd = Inr (expected_row fmt tp td a ps)"
proof -
  have keys: "fst ` set rd = {''t_plus'', ''device''} \<union> probe_column ` fst ` set ps"
    using fill_row_keys [OF fr] by (auto simp: set_sorted_items)
  have "fst ` set rd \<subseteq> set (fieldnames td)"
    unfolding keys fieldnames_expected expected_columns_def
    using observed_probe_idsI [OF m] by (auto simp: finite_observed)
  then have ok: "\<not> list_ex (\<lambda>k. k \<notin> set (fieldnames td)) (map fst rd)"
    by (auto simp: list_ex_iff)
  have "map (\<lambda>k. case map_of rd k of None \<Rightarrow> [] | Some v \<Rightarrow> v) (fieldnames td)
          = expected_row fmt tp td a ps"
    unfolding fieldnames_expected expected_columns_def expected_row_def
    using row_fixed_cells [OF fr] row_cell [OF fr d] by simp
  with ok show ?thesis by (simp add: dict_to_list_def)
qed

lemma append_rows_step:
  "append_rows (Some (file_lines f @ (if f = None then [Header h] else []) @ [Row r])) h rows
     = append_rows f h (r # rows)"
  by (simp add: append_rows_def file_lines_def)

lemma snapshot_rows_Cons:
  "snapshot_rows fmt tp td ((a, ps) # items) =
     (if ps = [] then snapshot_rows fmt tp td items
      else expected_row fmt tp td a ps # snapshot_rows fmt tp td items)"
  by (simp add: snapshot_rows_def)

lemma write_rows_ok:
  assumes "set items \<subseteq> set td"
    and "list_all (\<lambda>(a, ps). distinct (map fst ps)) items"
    and "list_all (\<lambda>(a, ps). printable ps) items"
  shows "write_rows fmt tp td items f
           = (None, append_rows f (fieldnames td) (snapshot_rows fmt tp td items))"
  using assms
proof (induction items arbitrary: f)
  case Nil
  show ?case by (simp add: snapshot_rows_def append_rows_def)
next
  case (Cons x items)
  obtain a ps where x: "x = (a, ps)" by (cases x)
  from Cons.prems x have rest: "set items \<subseteq> set td"
    "list_all (\<lambda>(a, ps). distinct (map fst ps)) items"
    "list_all (\<lambda>(a, ps). printable ps) items"
    and m: "(a, ps) \<in> set td" and d: "distinct (map fst ps)" and pr: "printable ps"
    by auto
  note IH = Cons.IH [OF rest]
  show ?case
  proof (cases "ps = []")
    case True
    with IH show ?thesis by (simp add: x snapshot_rows_Cons)
  next
    case False
    from pr have pp: "print_probes fmt (sorted_items ps) = None"
      by (simp add: print_probes_None printable_sorted_items)
    from pr obtain rd where
      fr: "fill_row fmt (sorted_items ps) [(''t_plus'', tp), (''device'', a)] = Inr rd"
      using fill_row_Inr [of "sorted_items ps" fmt] by (auto simp: printable_sorted_items)
    note dl = row_cells [OF m d fr]
    have "write_rows fmt tp td (x # items) f =
            write_rows fmt tp td items
              (Some (file_lines f @ (if f = None then [Header (fieldnames td)] else [])
                 @ [Row (expected_row fmt tp td a ps)]))"
      using False pp fr dl by (cases f) (simp_all add: x file_lines_def)
    also have "\<dots> = (None, append_rows f (fieldnames td) (snapshot_rows fmt tp td (x # items)))"
      using False by (simp add: IH append_rows_step x snapshot_rows_Cons)
    finally show ?thesis .
  qed
qed

lemma write_rows_printable:
  "write_rows fmt tp td items f = (None, f') \<Longrightarrow> list_all (\<lambda>(a, ps). printable ps) items"
proof (induction items arbitrary: f)
  case Nil
  show ?case by simp
next
  case (Cons x items)
  obtain a ps where x: "x = (a, ps)" by (cases x)
  show ?case
  proof (cases "ps = []")
    case True
    with Cons.prems x have "write_rows fmt tp td items f = (None, f')" by simp
    from Cons.IH [OF this] True show ?thesis by (simp add: x printable_def)
  next
    case False
    from Cons.prems x False have pp: "print_probes fmt (sorted_items ps) = None"
      by (auto split: option.splits)
    then have pr: "printable ps" by (simp add: print_probes_None printable_sorted_items)
    from Cons.prems x False pp obtain f1 where "write_rows fmt tp td items f1 = (None, f')"
      by (auto simp: Let_def split: sum.splits)
    from Cons.IH [OF this] pr show ?thesis by (simp add: x)
  qed
qed

lemma print_probes_Some: "print_probes fmt ps = Some e \<Longrightarrow> e = TypeError"
  by (induction ps) (auto simp: format_temp_Inl split: sum.splits)

lemma write_rows_prefix:
  assumes "set items \<subseteq> set td"
    and "list_all (\<lambda>(a, ps). distinct (map fst ps)) items"
  shows "write_rows fmt tp td items f =
           (if list_all (\<lambda>(a, ps). printable ps) items then None else Some TypeError,
            append_rows f (fieldnames td)
              (snapshot_rows fmt tp td (takeWhile (\<lambda>(a, ps). printable ps) items)))"
  using assms
proof (induction items arbitrary: f)
  case Nil
  show ?case by (simp add: snapshot_rows_def append_rows_def)
next
  case (Cons x items)
  obtain a ps where x: "x = (a, ps)" by (cases x)
  from Cons.prems x have rest: "set items \<subseteq> set td"
    "list_all (\<lambda>(a, ps). distinct (map fst ps)) items"
    and m: "(a, ps) \<in> set td" and d: "distinct (map fst ps)"
    by auto
  note IH = Cons.IH [OF rest]
  show ?case
  proof (cases "printable ps")
    case False
    then have ne: "ps \<noteq> []" by (auto simp: printable_def)
    from False obtain e where "print_probes fmt (sorted_items ps) = Some e"
      using print_probes_None [of fmt "sorted_items ps"] by (auto simp: printable_sorted_items)
    moreover from this have "e = TypeError" by (rule print_probes_Some)
    ultimately show ?thesis
      using False ne by (simp add: x snapshot_rows_def append_rows_def)
  next
    case pr: True
    show ?thesis
    proof (cases "ps = []")
      case True
      with IH pr show ?thesis by (simp add: x snapshot_rows_Cons)
    next
      case False
      from pr have pp: "print_probes fmt (sorted_items ps) = None"
        by (simp add: print_probes_None printable_sorted_items)
      from pr obtain rd where
        fr: "fill_row fmt (sorted_items ps) [(''t_plus'', tp), (''device'', a)] = Inr rd"
        using fill_row_Inr [of "sorted_items ps" fmt] by (auto simp: printable_sorted_items)
      note dl = row_cells [OF m d fr]
      have "write_rows fmt tp td (x # items) f =
              write_rows fmt tp td items
                (Some (file_lines f @ (if f = None then [Header (fieldnames td)] else [])
                   @ [Row (expected_row fmt tp td a ps)]))"
        using False pp fr dl by (cases f) (simp_all add: x file_lines_def)
      also have "\<dots> =
          (if list_all (\<lambda>(a, ps). printable ps) (x # items) then None else Some TypeError,
           append_rows f (fieldnames td)
             (snapshot_rows fmt tp td (takeWhile (\<lambda>(a, ps). printable ps) (x # items))))"
        using False pr by (simp add: IH append_rows_step x snapshot_rows_Cons)
      finally show ?thesis .
    qed
  qed
qed

section \<open>The header is written once\<close>

lemma all_rows_iff: "list_all is_row xs \<longleftrightarrow> (\<exists>rows. xs = map Row rows)"
proof
  assume "list_all is_row xs"
  then show "\<exists>rows. xs = map Row rows"
  proof (induction xs)
    case Nil
    show ?case by simp
  next
    case (Cons x xs)
    then obtain rows where rows: "xs = map Row rows" by auto
    from Cons.prems obtain r where "x = Row r" by (cases x) simp_all
    with rows have "x # xs = map Row (r # rows)" by simp
    then show ?case by (rule exI)
  qed
next
  assume "\<exists>rows. xs = map Row rows"
  then show "list_all is_row xs" by (auto simp: list_all_iff)
qed

lemma header_once_iff:
  "header_once f f' \<longleftrightarrow>
     (case f of
        Some ls \<Rightarrow> (\<exists>rows. f' = Some (ls @ map Row rows))
      | None \<Rightarrow> f' = None \<or> (\<exists>h rows. f' = Some (Header h # map Row rows)))"
proof (cases f)
  case None
  show ?thesis
  proof (cases f')
    case fN: None
    with None show ?thesis by (simp add: header_once_def)
  next
    case (Some ls')
    show ?thesis
    proof (cases ls')
      case Nil
      with None Some show ?thesis by (simp add: header_once_def)
    next
      case (Cons l rest)
      show ?thesis
      proof (cases l)
        case (Header h)
        with None Some Cons show ?thesis by (simp add: header_once_def all_rows_iff)
      next
        case (Row r)
        with None Some Cons show ?thesis by (simp add: header_once_def)
      qed
    qed
  qed
next
  case (Some ls)
  show ?thesis
  proof (cases f')
    case None
    with Some show ?thesis by (simp add: header_once_def)
  next
    case f'S: (Some ls')
    have "take (length ls) ls' = ls \<and> list_all is_row (drop (length ls) ls')
            \<longleftrightarrow> (\<exists>rows. ls' = ls @ map Row rows)"
    proof
      assume a: "take (length ls) ls' = ls \<and> list_all is_row (drop (length ls) ls')"
      then obtain rows where "drop (length ls) ls' = map Row rows" by (auto simp: all_rows_iff)
      with a have "ls' = ls @ map Row rows" by (metis append_take_drop_id)
      then show "\<exists>rows. ls' = ls @ map Row rows" by blast
    next
      assume "\<exists>rows. ls' = ls @ map Row rows"
      then obtain rows where "ls' = ls @ map Row rows" by blast
      then show "take (length ls) ls' = ls \<and> list_all is_row (drop (length ls) ls')"
        by (simp add: all_rows_iff) blast
    qed
    with Some f'S show ?thesis by (simp add: header_once_def)
  qed
qed

lemma header_once_SomeI: "f = Some ls \<Longrightarrow> f' = Some (ls @ map Row rows) \<Longrightarrow> header_once f f'"
  unfolding header_once_iff by auto

lemma header_once_NoneI: "f = None \<Longrightarrow> f' = Some (Header h # map Row rows) \<Longrightarrow> header_once f f'"
  unfolding header_once_iff by auto

lemma header_once_refl: "header_once f f"
proof (cases f)
  case None
  then show ?thesis by (simp add: header_once_iff)
next
  case (Some ls)
  show ?thesis by (rule header_once_SomeI [where rows = "[]", OF Some]) (simp add: Some)
qed

lemma header_once_trans:
  assumes "header_once f g" and "header_once g h"
  shows "header_once f h"
proof (cases f)
  case (Some ls)
  with assms(1) obtain r1 where g: "g = Some (ls @ map Row r1)" by (auto simp: header_once_iff)
  with assms(2) obtain r2 where "h = Some ((ls @ map Row r1) @ map Row r2)"
    by (auto simp: header_once_iff)
  then have "h = Some (ls @ map Row (r1 @ r2))" by simp
  with Some show ?thesis by (rule header_once_SomeI)
next
  case None
  show ?thesis
  proof (cases g)
    case gN: None
    with assms(2) None show ?thesis by (simp add: header_once_iff)
  next
    case (Some ms)
    with assms(1) None obtain h0 r1 where ms: "ms = Header h0 # map Row r1"
      by (auto simp: header_once_iff)
    from assms(2) Some obtain r2 where "h = Some (ms @ map Row r2)"
      by (auto simp: header_once_iff)
    with ms have "h = Some (Header h0 # map Row (r1 @ r2))" by simp
    with None show ?thesis by (rule header_once_NoneI)
  qed
qed

lemma header_once_first_write:
  "header_once f (Some (file_lines f @ (if f = None then [Header h] else []) @ [Row r]))"
proof (cases f)
  case None
  show ?thesis
    by (rule header_once_NoneI [where rows = "[r]", OF None]) (simp add: file_lines_def None)
next
  case (Some ls)
  show ?thesis
    by (rule header_once_SomeI [where rows = "[r]", OF Some]) (simp add: file_lines_def Some)
qed

lemma header_once_header_only:
  "f = None \<Longrightarrow> header_once f (Some [Header h])"
  by (erule header_once_NoneI [where rows = "[]"]) simp

lemma header_once_write_rows: "header_once f (snd (write_rows fmt tp td items f))"
proof (induction items arbitrary: f)
  case Nil
  show ?case by (simp add: header_once_refl)
next
  case (Cons x items)
  obtain a ps where x: "x = (a, ps)" by (cases x)
  show ?case
  proof (cases "ps = []")
    case True
    with Cons.IH show ?thesis by (simp add: x)
  next
    case False
    show ?thesis
    proof (cases "print_probes fmt (sorted_items ps)")
      case (Some e)
      with False show ?thesis by (simp add: x header_once_refl)
    next
      case None
      show ?thesis
      proof (cases "fill_row fmt (sorted_items ps) [(''t_plus'', tp), (''device'', a)]")
        case (Inl e)
        with False None show ?thesis by (simp add: x header_once_refl)
      next
        case (Inr rd)
        show ?thesis
        proof (cases "dict_to_list (fieldnames td) rd")
          case Inl2: (Inl e)
          have "header_once f (Some (file_lines f @ (if f = None then [Header (fieldnames td)] else [])))"
            by (cases f) (simp_all add: header_once_header_only file_lines_def header_once_refl)
          with False None Inr Inl2 show ?thesis
            by (cases f) (simp_all add: x file_lines_def)
        next
          case Inr2: (Inr cells)
          let ?f1 = "Some (file_lines f @ (if f = None then [Header (fieldnames td)] else []) @ [Row cells])"
          have w: "write_rows fmt tp td (x # items) f = write_rows fmt tp td items ?f1"
            using False None Inr Inr2 by (cases f) (simp_all add: x file_lines_def)
          have "header_once f ?f1" by (rule header_once_first_write)
          from header_once_trans [OF this Cons.IH [of ?f1]] show ?thesis
            unfolding w .
        qed
      qed
    qed
  qed
qed

lemma print_temperature_readings_file:
  "csv_file (snd (print_temperature_readings fmt ns now st)) =
     (if temp_data st = [] then csv_file st
      else snd (write_rows fmt
             (format_elapsed_time now (case monitoring_start_time st of None \<Rightarrow> ns | Some s \<Rightarrow> s))
             (temp_data st) (temp_data st) (csv_file st)))"
  by (simp add: print_temperature_readings_def Let_def split: prod.splits)

lemma print_temperature_readings_temp_data:
  "temp_data (snd (print_temperature_readings fmt ns now st)) = temp_data st"
  by (simp add: print_temperature_readings_def Let_def split: prod.splits)

lemma header_once_print: "header_once (csv_file st) (csv_file (snd (print_temperature_readings fmt ns now st)))"
  by (simp add: print_temperature_readings_file header_once_refl header_once_write_rows)

section \<open>What a scan changes\<close>

lemma fold_apply_update:
  "fold (apply_update a) us td = apply_updates (map (Pair a) us) td"
  by (simp add: apply_updates_def fold_map comp_def)

lemma apply_updates_append:
  "apply_updates (us @ vs) td = apply_updates vs (apply_updates us td)"
  by (simp add: apply_updates_def)

lemma process_advertisement_frame:
  "csv_file (snd (process_advertisement adv st)) = csv_file st"
  "monitoring_start_time (snd (process_advertisement adv st)) = monitoring_start_time st"
  "error_log (snd (process_advertisement adv st)) = error_log st"
  "temp_data (snd (process_advertisement adv st)) =
     apply_updates (map (Pair (adv_address adv)) (adv_updates adv)) (temp_data st)"
  by (simp_all add: process_advertisement_def Let_def fold_apply_update)

lemma process_advertisement_address:
  "h5055_address (snd (process_advertisement adv st)) = h5055_address st
   \<or> h5055_address (snd (process_advertisement adv st)) = Some (adv_address adv)"
  by (simp add: process_advertisement_def Let_def)

lemma process_advertisement_found:
  "found_h5055 st \<Longrightarrow> found_h5055 (snd (process_advertisement adv st))"
  by (simp add: process_advertisement_def Let_def)

lemma process_advertisement_lock:
  "found_h5055 (snd (process_advertisement adv st)) \<Longrightarrow> \<not> found_h5055 st
     \<Longrightarrow> h5055_address (snd (process_advertisement adv st)) = Some (adv_address adv)"
  by (simp add: process_advertisement_def Let_def split: if_splits)

lemma log_error_frame:
  "csv_file (log_error e st) = csv_file st"
  "temp_data (log_error e st) = temp_data st"
  "monitoring_start_time (log_error e st) = monitoring_start_time st"
  "h5055_address (log_error e st) = h5055_address st"
  "found_h5055 (log_error e st) = found_h5055 st"
  "processed_devices (log_error e st) = processed_devices st"
  "error_log (log_error e st) = error_log st @ [e]"
  by (simp_all add: log_error_def)

lemma discovery_callback_frame:
  "csv_file (snd (discovery_callback adv (b, st))) = csv_file st"
  "monitoring_start_time (snd (discovery_callback adv (b, st))) = monitoring_start_time st"
  "temp_data (snd (discovery_callback adv (b, st))) =
     apply_updates (map (Pair (adv_address adv)) (adv_updates adv)) (temp_data st)"
  using process_advertisement_frame [of adv st]
  by (auto simp: discovery_callback_def log_error_frame split: prod.splits option.splits)

lemma fold_pair_frame:
  assumes "\<And>x b s. g (snd (f x (b, s))) = g s"
  shows "g (snd (fold f xs (b, s))) = g s"
proof (induction xs arbitrary: b s)
  case Nil
  show ?case by simp
next
  case (Cons x xs)
  have "g (snd (fold f xs (fst (f x (b, s)), snd (f x (b, s))))) = g (snd (f x (b, s)))"
    by (rule Cons.IH)
  then show ?case by (simp add: assms)
qed

lemma fold_discovery_frame:
  "csv_file (snd (fold discovery_callback ads (b, st))) = csv_file st"
  "monitoring_start_time (snd (fold discovery_callback ads (b, st))) = monitoring_start_time st"
  by (rule fold_pair_frame, rule discovery_callback_frame)+

lemma fold_discovery_temp_data:
  "temp_data (snd (fold discovery_callback ads (b, st))) =
     apply_updates (advertised_updates ads) (temp_data st)"
proof (induction ads arbitrary: b st)
  case Nil
  show ?case by (simp add: advertised_updates_def apply_updates_def)
next
  case (Cons adv ads)
  have "temp_data (snd (fold discovery_callback ads
          (fst (discovery_callback adv (b, st)), snd (discovery_callback adv (b, st))))) =
        apply_updates (advertised_updates ads) (temp_data (snd (discovery_callback adv (b, st))))"
    by (rule Cons.IH)
  then show ?case
    by (simp add: discovery_callback_frame advertised_updates_def apply_updates_append)
qed

section \<open>Snapshots\<close>

lemma print_temperature_readings_unfold:
  "print_temperature_readings fmt ns now st =
     (if temp_data st = [] then (None, st)
      else (fst (write_rows fmt (t_plus_of ns now st) (temp_data st) (temp_data st) (csv_file st)),
            st\<lparr>monitoring_start_time := Some (start_instant ns st),
               csv_file := snd (write_rows fmt (t_plus_of ns now st) (temp_data st) (temp_data st)
                                  (csv_file st))\<rparr>))"
  by (simp add: print_temperature_readings_def Let_def t_plus_of_def start_instant_def
      split: prod.splits)

lemma keys_distinct_items: "keys_distinct td \<Longrightarrow> list_all (\<lambda>(a, ps). distinct (map fst ps)) td"
  by (simp add: keys_distinct_def)

lemma print_temperature_readings_rows:
  assumes "keys_distinct (temp_data st)" and "no_null_readings (temp_data st)"
  shows "fst (print_temperature_readings fmt ns now st) = None"
    and "csv_file (snd (print_temperature_readings fmt ns now st)) =
           append_rows (csv_file st) (fieldnames (temp_data st))
             (snapshot_rows fmt (t_plus_of ns now st) (temp_data st) (temp_data st))"
proof -
  have w: "write_rows fmt (t_plus_of ns now st) (temp_data st) (temp_data st) (csv_file st) =
      (None, append_rows (csv_file st) (fieldnames (temp_data st))
               (snapshot_rows fmt (t_plus_of ns now st) (temp_data st) (temp_data st)))"
    using assms by (intro write_rows_ok) (simp_all add: keys_distinct_items no_null_readings_def)
  show "fst (print_temperature_readings fmt ns now st) = None"
    by (simp add: print_temperature_readings_unfold w)
  show "csv_file (snd (print_temperature_readings fmt ns now st)) =
           append_rows (csv_file st) (fieldnames (temp_data st))
             (snapshot_rows fmt (t_plus_of ns now st) (temp_data st) (temp_data st))"
    by (simp add: print_temperature_readings_unfold w snapshot_rows_def append_rows_def)
qed

lemma print_temperature_readings_success:
  assumes "fst (print_temperature_readings fmt ns now st) = None"
  shows "no_null_readings (temp_data st)"
proof (cases "temp_data st = []")
  case True
  then show ?thesis by (simp add: no_null_readings_def)
next
  case False
  with assms have "fst (write_rows fmt (t_plus_of ns now st) (temp_data st) (temp_data st) (csv_file st)) = None"
    by (simp add: print_temperature_readings_unfold)
  then have "write_rows fmt (t_plus_of ns now st) (temp_data st) (temp_data st) (csv_file st)
      = (None, snd (write_rows fmt (t_plus_of ns now st) (temp_data st) (temp_data st) (csv_file st)))"
    by (metis prod.collapse)
  from write_rows_printable [OF this] show ?thesis by (simp add: no_null_readings_def)
qed

lemma print_temperature_readings_prefix:
  assumes "keys_distinct (temp_data st)"
  shows "fst (print_temperature_readings fmt ns now st) =
           (if no_null_readings (temp_data st) then None else Some TypeError)"
    and "csv_file (snd (print_temperature_readings fmt ns now st)) =
           append_rows (csv_file st) (fieldnames (temp_data st))
             (snapshot_rows fmt (t_plus_of ns now st) (temp_data st)
                (takeWhile (\<lambda>(a, ps). printable ps) (temp_data st)))"
proof -
  have w: "write_rows fmt (t_plus_of ns now st) (temp_data st) (temp_data st) (csv_file st) =
      (if no_null_readings (temp_data st) then None else Some TypeError,
       append_rows (csv_file st) (fieldnames (temp_data st))
         (snapshot_rows fmt (t_plus_of ns now st) (temp_data st)
            (takeWhile (\<lambda>(a, ps). printable ps) (temp_data st))))"
    unfolding no_null_readings_def
    using assms by (intro write_rows_prefix) (simp_all add: keys_distinct_items)
  show "fst (print_temperature_readings fmt ns now st) =
           (if no_null_readings (temp_data st) then None else Some TypeError)"
    by (simp add: print_temperature_readings_unfold w no_null_readings_def)
  show "csv_file (snd (print_temperature_readings fmt ns now st)) =
           append_rows (csv_file st) (fieldnames (temp_data st))
             (snapshot_rows fmt (t_plus_of ns now st) (temp_data st)
                (takeWhile (\<lambda>(a, ps). printable ps) (temp_data st)))"
    by (simp add: print_temperature_readings_unfold w snapshot_rows_def append_rows_def)
qed

lemma tl_expected_row: "tl (expected_row fmt tp td a ps) = tl (expected_row fmt tp' td a ps)"
  by (simp add: expected_row_def)

lemma tl_snapshot_rows:
  "map tl (snapshot_rows fmt tp td items) = map tl (snapshot_rows fmt tp' td items)"
  by (induction items) (auto simp: snapshot_rows_def expected_row_def)

lemma hd_snapshot_rows: "r \<in> set (snapshot_rows fmt tp td items) \<Longrightarrow> hd r = tp"
  by (auto simp: snapshot_rows_def expected_row_def)

lemma length_snapshot_rows:
  "r \<in> set (snapshot_rows fmt tp td items) \<Longrightarrow> length r = length (fieldnames td)"
  by (auto simp: snapshot_rows_def expected_row_def fieldnames_expected expected_columns_def)

lemma expected_cell_absent: "map_of ps p = None \<Longrightarrow> expected_cell fmt ps p = []"
  by (simp add: expected_cell_def)

text \<open>
  Claim C4. For every snapshot write the column list is \<open>t_plus\<close>, \<open>device\<close> and then one
  probe column for each distinct probe id of any device in the Reading Store, in strictly
  ascending order of the id. Each device with readings gets one row over these columns;
  the cell of a probe the device lacks is the empty string. The snapshot ends with a
  \<open>TypeError\<close> at the first device that has a \<open>None\<close> reading, after the rows of the devices
  before it.
\<close>

theorem snapshot_columns_and_rows:
  assumes "keys_distinct (temp_data st)"
  shows "fieldnames (temp_data st) =
           ''t_plus'' # ''device'' #
             map probe_column (sorted_list_of_set (observed_probe_ids (temp_data st)))
       \<and> sorted_wrt (<) (sorted_list_of_set (observed_probe_ids (temp_data st)))
       \<and> csv_file (snd (print_temperature_readings fmt ns now st)) =
           append_rows (csv_file st) (fieldnames (temp_data st))
             (snapshot_rows fmt (t_plus_of ns now st) (temp_data st)
                (takeWhile (\<lambda>(a, ps). printable ps) (temp_data st)))
       \<and> fst (print_temperature_readings fmt ns now st) =
           (if no_null_readings (temp_data st) then None else Some TypeError)
       \<and> (\<forall>ps p. map_of ps p = None \<longrightarrow> expected_cell fmt ps p = [])"
  using print_temperature_readings_prefix [OF assms]
  by (simp add: fieldnames_expected expected_columns_def probe_ids_strictly_ascending
      expected_cell_absent)

text \<open>
  Claim C6. A snapshot leaves the Reading Store as it was. When a snapshot succeeds, a
  second one with no update in between succeeds too and writes the same rows but for
  their first column, the elapsed time.
\<close>

theorem snapshot_idempotent:
  assumes kd: "keys_distinct (temp_data st)"
    and p1: "print_temperature_readings fmt ns1 now1 st = (None, st1)"
  shows "temp_data st1 = temp_data st
       \<and> fst (print_temperature_readings fmt ns2 now2 st1) = None
       \<and> temp_data (snd (print_temperature_readings fmt ns2 now2 st1)) = temp_data st
       \<and> csv_file st1 = append_rows (csv_file st) (fieldnames (temp_data st))
             (snapshot_rows fmt (t_plus_of ns1 now1 st) (temp_data st) (temp_data st))
       \<and> csv_file (snd (print_temperature_readings fmt ns2 now2 st1)) =
           append_rows (csv_file st1) (fieldnames (temp_data st))
             (snapshot_rows fmt (t_plus_of ns2 now2 st1) (temp_data st) (temp_data st))
       \<and> map tl (snapshot_rows fmt (t_plus_of ns1 now1 st) (temp_data st) (temp_data st)) =
           map tl (snapshot_rows fmt (t_plus_of ns2 now2 st1) (temp_data st) (temp_data st))"
proof -
  from p1 have f1: "fst (print_temperature_readings fmt ns1 now1 st) = None"
    and s1: "st1 = snd (print_temperature_readings fmt ns1 now1 st)" by simp_all
  have td1: "temp_data st1 = temp_data st"
    unfolding s1 by (rule print_temperature_readings_temp_data)
  have nn: "no_null_readings (temp_data st)"
    using f1 by (rule print_temperature_readings_success)
  have kd1: "keys_distinct (temp_data st1)" and nn1: "no_null_readings (temp_data st1)"
    using kd nn td1 by simp_all
  note r1 = print_temperature_readings_rows [OF kd nn, of fmt ns1 now1]
  note r2 = print_temperature_readings_rows [OF kd1 nn1, of fmt ns2 now2]
  have td2: "temp_data (snd (print_temperature_readings fmt ns2 now2 st1)) = temp_data st"
    using print_temperature_readings_temp_data [of fmt ns2 now2 st1] td1 by simp
  from td1 td2 r1(2) r2 show ?thesis
    unfolding s1 [symmetric] by (simp add: td1 tl_snapshot_rows [of fmt "t_plus_of ns1 now1 st"])
qed

lemma snapshot_rows_nonempty:
  assumes "(a, ps) \<in> set td" and "ps \<noteq> []"
  shows "snapshot_rows fmt tp td td \<noteq> []"
proof -
  from assms have "(a, ps) \<in> set (filter (\<lambda>(a, ps). ps \<noteq> []) td)" by simp
  then have "filter (\<lambda>(a, ps). ps \<noteq> []) td \<noteq> []" by (metis empty_iff empty_set)
  then show ?thesis by (simp add: snapshot_rows_def)
qed

text \<open>
  Claim C3. When a new probe id has appeared in the Reading Store after a header was
  committed to an existing file, the next snapshot computes its field names from all
  current data: the list differs from the committed header and is longer. The writer
  raises nothing; it appends rows of the new width under the old header, which is not
  rewritten, so the rows do not match the header.
\<close>

theorem new_probe_after_header:
  assumes f: "csv_file st = Some (Header (fieldnames td0) # ls)"
    and new: "all_probe_ids td0 \<subset> all_probe_ids (temp_data st)"
    and kd: "keys_distinct (temp_data st)" and nn: "no_null_readings (temp_data st)"
  shows "fieldnames (temp_data st) \<noteq> fieldnames td0
       \<and> length (fieldnames td0) < length (fieldnames (temp_data st))
       \<and> fst (print_temperature_readings fmt ns now st) = None
       \<and> snapshot_rows fmt (t_plus_of ns now st) (temp_data st) (temp_data st) \<noteq> []
       \<and> csv_file (snd (print_temperature_readings fmt ns now st)) =
           Some (Header (fieldnames td0) # ls @
             map Row (snapshot_rows fmt (t_plus_of ns now st) (temp_data st) (temp_data st)))
       \<and> (\<forall>r \<in> set (snapshot_rows fmt (t_plus_of ns now st) (temp_data st) (temp_data st)).
            length r = length (fieldnames (temp_data st)))"
proof -
  let ?td = "temp_data st"
  let ?rows = "snapshot_rows fmt (t_plus_of ns now st) ?td ?td"
  from new have sub: "observed_probe_ids td0 \<subset> observed_probe_ids ?td"
    by (simp add: all_probe_ids_observed)
  then have "card (observed_probe_ids td0) < card (observed_probe_ids ?td)"
    by (intro psubset_card_mono finite_observed)
  then have len: "length (fieldnames td0) < length (fieldnames ?td)"
    by (simp add: length_fieldnames)
  then have ne: "fieldnames ?td \<noteq> fieldnames td0" by auto
  from sub obtain p where "p \<in> observed_probe_ids ?td" by auto
  then obtain a ps where m: "(a, ps) \<in> set ?td" and "p \<in> fst ` set ps"
    by (auto simp: observed_probe_ids_def)
  then have "ps \<noteq> []" by auto
  with m have rows: "?rows \<noteq> []" by (rule snapshot_rows_nonempty)
  note r = print_temperature_readings_rows [OF kd nn, of fmt ns now]
  from r(2) rows f have fl: "csv_file (snd (print_temperature_readings fmt ns now st)) =
      Some (Header (fieldnames td0) # ls @ map Row ?rows)"
    by (simp add: append_rows_def file_lines_def)
  from ne len r(1) rows fl show ?thesis by (simp add: length_snapshot_rows)
qed

section \<open>The run\<close>

lemma scan_for_devices_frame:
  "csv_file (snd (scan_for_devices oc st)) = csv_file st"
  "monitoring_start_time (snd (scan_for_devices oc st)) = monitoring_start_time st"
  "temp_data (snd (scan_for_devices oc st)) =
     apply_updates (advertised_updates (delivered oc)) (temp_data st)"
proof -
  let ?st0 = "st\<lparr>processed_devices := {}\<rparr>"
  note f = fold_discovery_frame [of _ False ?st0] fold_discovery_temp_data [of _ False ?st0]
  show "csv_file (snd (scan_for_devices oc st)) = csv_file st"
    using f by (cases oc) (simp_all add: scan_for_devices_def log_error_frame case_prod_beta Let_def)
  show "monitoring_start_time (snd (scan_for_devices oc st)) = monitoring_start_time st"
    using f by (cases oc) (simp_all add: scan_for_devices_def log_error_frame case_prod_beta Let_def)
  show "temp_data (snd (scan_for_devices oc st)) =
     apply_updates (advertised_updates (delivered oc)) (temp_data st)"
    using f by (cases oc)
      (simp_all add: scan_for_devices_def log_error_frame advertised_updates_def apply_updates_def
        case_prod_beta Let_def)
qed

lemma monitoring_callback_frame:
  "csv_file (monitoring_callback d adv st) = csv_file st"
  "monitoring_start_time (monitoring_callback d adv st) = monitoring_start_time st"
  using process_advertisement_frame [of adv st]
  by (auto simp: monitoring_callback_def log_error_frame split: prod.splits option.splits)

lemma monitoring_callback_address:
  "h5055_address st = d \<Longrightarrow> h5055_address (monitoring_callback d adv st) = d"
  using process_advertisement_address [of adv st]
  by (auto simp: monitoring_callback_def log_error_frame split: prod.splits option.splits)

lemma fold_frame:
  assumes "\<And>x s. g (f x s) = g s"
  shows "g (fold f xs s) = g s"
  by (induction xs arbitrary: s) (simp_all add: assms)

lemma fold_monitoring_address:
  "h5055_address st = d \<Longrightarrow> h5055_address (fold (monitoring_callback d) ads st) = d"
  by (induction ads arbitrary: st) (simp_all add: monitoring_callback_address)

lemma scan_specific_device_frame:
  "csv_file (scan_specific_device d oc st) = csv_file st"
  "monitoring_start_time (scan_specific_device d oc st) = monitoring_start_time st"
proof -
  have c: "\<And>ads s. csv_file (fold (monitoring_callback d) ads s) = csv_file s"
    by (rule fold_frame) (rule monitoring_callback_frame)
  have m: "\<And>ads s. monitoring_start_time (fold (monitoring_callback d) ads s) = monitoring_start_time s"
    by (rule fold_frame) (rule monitoring_callback_frame)
  show "csv_file (scan_specific_device d oc st) = csv_file st"
    by (cases oc) (simp_all add: scan_specific_device_def log_error_frame c)
  show "monitoring_start_time (scan_specific_device d oc st) = monitoring_start_time st"
    by (cases oc) (simp_all add: scan_specific_device_def log_error_frame m)
qed

lemma scan_specific_device_address:
  "h5055_address st = d \<Longrightarrow> h5055_address (scan_specific_device d oc st) = d"
  by (cases oc) (simp_all add: scan_specific_device_def log_error_frame fold_monitoring_address)

lemma print_temperature_readings_address:
  "h5055_address (snd (print_temperature_readings fmt ns now st)) = h5055_address st"
  by (simp add: print_temperature_readings_unfold)

lemma main_step_header_once:
  "header_once (csv_file (globals rs)) (csv_file (globals (main_step fmt ev rs)))"
proof (cases "phase rs")
  case (Stopped c)
  then show ?thesis by (simp add: main_step_def header_once_refl)
next
  case Searching
  show ?thesis
  proof (cases ev)
    case Interrupt
    with Searching show ?thesis by (simp add: main_step_def header_once_refl)
  next
    case (Cycle oc t1 t2)
    with Searching scan_for_devices_frame(1) [of oc "globals rs"] show ?thesis
      by (simp add: main_step_def start_monitoring_def header_once_refl Let_def case_prod_beta)
  qed
next
  case Monitoring
  show ?thesis
  proof (cases ev)
    case Interrupt
    with Monitoring show ?thesis by (simp add: main_step_def header_once_refl)
  next
    case (Cycle oc t1 t2)
    let ?st0 = "(globals rs)\<lparr>processed_devices := {}\<rparr>"
    let ?st1 = "scan_specific_device (h5055_address ?st0) oc ?st0"
    have "csv_file ?st1 = csv_file (globals rs)" by (simp add: scan_specific_device_frame)
    with header_once_print [of ?st1 fmt t1 t2]
    have "header_once (csv_file (globals rs))
            (csv_file (snd (print_temperature_readings fmt t1 t2 ?st1)))" by simp
    with Monitoring Cycle show ?thesis
      by (simp add: main_step_def Let_def log_error_frame case_prod_beta split: option.splits)
  qed
qed

lemma run_snoc: "run fmt (evs @ [ev]) rs = main_step fmt ev (run fmt evs rs)"
  by (simp add: run_def)

lemma run_header_once:
  "header_once (csv_file (globals rs)) (csv_file (globals (run fmt evs rs)))"
proof (induction evs rule: rev_induct)
  case Nil
  show ?case by (simp add: run_def header_once_refl)
next
  case (snoc ev evs)
  from snoc main_step_header_once [of "run fmt evs rs" fmt ev] show ?case
    unfolding run_snoc by (rule header_once_trans)
qed

lemma main_step_locked:
  assumes "phase rs \<noteq> Searching"
  shows "phase (main_step fmt ev rs) \<noteq> Searching"
    and "scan_count (main_step fmt ev rs) = scan_count rs"
    and "h5055_address (globals (main_step fmt ev rs)) = h5055_address (globals rs)"
proof -
  let ?st0 = "(globals rs)\<lparr>processed_devices := {}\<rparr>"
  have a: "\<And>oc t1 t2. h5055_address (snd (print_temperature_readings fmt t1 t2
              (scan_specific_device (h5055_address ?st0) oc ?st0))) = h5055_address (globals rs)"
    by (simp add: print_temperature_readings_address scan_specific_device_address)
  show "phase (main_step fmt ev rs) \<noteq> Searching"
    using assms by (cases "phase rs"; cases ev)
      (simp_all add: main_step_def Let_def case_prod_beta split: option.splits)
  show "scan_count (main_step fmt ev rs) = scan_count rs"
    using assms by (cases "phase rs"; cases ev)
      (simp_all add: main_step_def Let_def case_prod_beta split: option.splits)
  show "h5055_address (globals (main_step fmt ev rs)) = h5055_address (globals rs)"
  proof (cases "phase rs")
    case Searching
    with assms show ?thesis by simp
  next
    case (Stopped c)
    then show ?thesis by (simp add: main_step_def)
  next
    case Monitoring
    show ?thesis
    proof (cases ev)
      case Interrupt
      with Monitoring show ?thesis by (simp add: main_step_def)
    next
      case (Cycle oc t1 t2)
      with Monitoring a [of t1 t2 oc] show ?thesis
        by (simp add: main_step_def Let_def log_error_frame case_prod_beta split: option.splits)
    qed
  qed
qed

lemma run_locked:
  assumes "phase rs \<noteq> Searching"
  shows "phase (run fmt evs rs) \<noteq> Searching
       \<and> scan_count (run fmt evs rs) = scan_count rs
       \<and> h5055_address (globals (run fmt evs rs)) = h5055_address (globals rs)"
proof (induction evs rule: rev_induct)
  case Nil
  from assms show ?case by (simp add: run_def)
next
  case (snoc ev evs)
  then have p: "phase (run fmt evs rs) \<noteq> Searching" by simp
  from main_step_locked [OF p, of fmt ev] snoc show ?case
    unfolding run_snoc by simp
qed

lemma snapshot_rows_empty:
  "(snapshot_rows fmt tp td items = []) = list_all (\<lambda>(a, ps). ps = []) items"
  by (induction items) (auto simp: snapshot_rows_def)

text \<open>
  Claim C5. The header is written once in the lifetime of the file, on the first write to
  a file that does not exist. A snapshot, and any run of the main loop, extends a file
  that exists by data rows only; a file that does not exist stays absent or becomes one
  header line followed by data rows only. A snapshot that has rows to write (some device
  before the first one with a \<open>None\<close> reading has readings) makes of a file that does not
  exist the header line with the field names of the store, followed by its rows, and adds
  to a file that exists its rows and nothing else.
\<close>

theorem header_written_once:
  "header_once (csv_file st) (csv_file (snd (print_temperature_readings fmt ns now st)))
   \<and> header_once (csv_file (globals rs)) (csv_file (globals (run fmt evs rs)))
   \<and> (keys_distinct (temp_data st) \<longrightarrow>
        csv_file (snd (print_temperature_readings fmt ns now st)) =
          (let rows = snapshot_rows fmt (t_plus_of ns now st) (temp_data st)
                        (takeWhile (\<lambda>(a, ps). printable ps) (temp_data st))
           in if rows = [] then csv_file st
              else case csv_file st of
                     None \<Rightarrow> Some (Header (fieldnames (temp_data st)) # map Row rows)
                   | Some ls \<Rightarrow> Some (ls @ map Row rows)))
   \<and> ((snapshot_rows fmt (t_plus_of ns now st) (temp_data st)
          (takeWhile (\<lambda>(a, ps). printable ps) (temp_data st)) = [])
      = list_all (\<lambda>(a, ps). ps = []) (takeWhile (\<lambda>(a, ps). printable ps) (temp_data st)))"
proof -
  have "csv_file (snd (print_temperature_readings fmt ns now st)) =
          (let rows = snapshot_rows fmt (t_plus_of ns now st) (temp_data st)
                        (takeWhile (\<lambda>(a, ps). printable ps) (temp_data st))
           in if rows = [] then csv_file st
              else case csv_file st of
                     None \<Rightarrow> Some (Header (fieldnames (temp_data st)) # map Row rows)
                   | Some ls \<Rightarrow> Some (ls @ map Row rows))"
    if kd: "keys_distinct (temp_data st)"
    unfolding print_temperature_readings_prefix(2) [OF kd]
    by (simp add: append_rows_def file_lines_def Let_def split: option.splits)
  then show ?thesis
    by (simp add: header_once_print run_header_once snapshot_rows_empty)
qed

section \<open>The keys of the store stay distinct\<close>

text \<open>
  The hypothesis \<open>keys_distinct\<close> of the theorems on snapshots holds in every state a run
  reaches: a fresh store has it, and the two update methods, the scans and the steps of
  the main loop keep it.
\<close>

lemma keys_distinct_ensure:
  "keys_distinct td \<Longrightarrow>
   keys_distinct (if map_of td a = None then AList.update a [] td else td)"
  by (simp add: keys_distinct_def distinct_update list_all_update)

lemma keys_distinct_store:
  assumes "keys_distinct td"
  shows "keys_distinct (case map_of td a of None \<Rightarrow> td
           | Some ps \<Rightarrow> AList.update a (AList.update pid t ps) td)"
proof (cases "map_of td a")
  case None
  with assms show ?thesis by simp
next
  case (Some ps)
  from assms Some have "distinct (map fst ps)"
    unfolding keys_distinct_def by (auto dest: map_of_list_all)
  then have "distinct (map fst (AList.update pid t ps))" by (rule distinct_update)
  with assms Some show ?thesis
    unfolding keys_distinct_def by (simp add: list_all_update distinct_update)
qed

lemma keys_distinct_apply_update:
  assumes "keys_distinct td"
  shows "keys_distinct (apply_update a u td)"
  unfolding apply_update_stores update_temp_probe_def Let_def
  using keys_distinct_store [OF keys_distinct_ensure [OF assms]] by simp

lemma keys_distinct_apply_updates:
  "keys_distinct td \<Longrightarrow> keys_distinct (apply_updates us td)"
proof (induction us arbitrary: td)
  case Nil
  then show ?case by (simp add: apply_updates_def)
next
  case (Cons x us)
  obtain a u where x: "x = (a, u)" by (cases x)
  from Cons.prems have "keys_distinct (apply_update a u td)" by (rule keys_distinct_apply_update)
  then have "keys_distinct (apply_updates us (apply_update a u td))" by (rule Cons.IH)
  then show ?case by (simp add: apply_updates_def x)
qed

lemma monitoring_callback_temp_data:
  "temp_data (monitoring_callback d adv st) =
     (if Some (adv_address adv) = d
      then apply_updates (map (Pair (adv_address adv)) (adv_updates adv)) (temp_data st)
      else temp_data st)"
  using process_advertisement_frame(4) [of adv st]
  by (auto simp: monitoring_callback_def log_error_frame split: prod.splits option.splits)

lemma keys_distinct_scan_specific_device:
  assumes "keys_distinct (temp_data st)"
  shows "keys_distinct (temp_data (scan_specific_device d oc st))"
proof -
  have f: "\<And>ads s. keys_distinct (temp_data s) \<Longrightarrow>
             keys_distinct (temp_data (fold (monitoring_callback d) ads s))"
  proof -
    fix ads s
    show "keys_distinct (temp_data s) \<Longrightarrow>
            keys_distinct (temp_data (fold (monitoring_callback d) ads s))"
      by (induction ads arbitrary: s)
        (simp_all add: monitoring_callback_temp_data keys_distinct_apply_updates)
  qed
  from f [OF assms] assms show ?thesis
    by (cases oc) (simp_all add: scan_specific_device_def log_error_frame)
qed

lemma keys_distinct_main_step:
  assumes "keys_distinct (temp_data (globals rs))"
  shows "keys_distinct (temp_data (globals (main_step fmt ev rs)))"
proof (cases "phase rs")
  case (Stopped c)
  with assms show ?thesis by (simp add: main_step_def)
next
  case Searching
  show ?thesis
  proof (cases ev)
    case Interrupt
    with Searching assms show ?thesis by (simp add: main_step_def)
  next
    case (Cycle oc t1 t2)
    have "keys_distinct (temp_data (snd (scan_for_devices oc (globals rs))))"
      using assms by (simp add: scan_for_devices_frame keys_distinct_apply_updates)
    with Searching Cycle assms show ?thesis
      by (simp add: main_step_def start_monitoring_def Let_def case_prod_beta)
  qed
next
  case Monitoring
  show ?thesis
  proof (cases ev)
    case Interrupt
    with Monitoring assms show ?thesis by (simp add: main_step_def)
  next
    case (Cycle oc t1 t2)
    let ?st0 = "(globals rs)\<lparr>processed_devices := {}\<rparr>"
    have "keys_distinct (temp_data ?st0)" using assms by simp
    then have "keys_distinct (temp_data (scan_specific_device (h5055_address ?st0) oc ?st0))"
      by (rule keys_distinct_scan_specific_device)
    then have "keys_distinct (temp_data (snd (print_temperature_readings fmt t1 t2
        (scan_specific_device (h5055_address ?st0) oc ?st0))))"
      by (simp add: print_temperature_readings_temp_data)
    with Monitoring Cycle show ?thesis
      by (simp add: main_step_def Let_def log_error_frame case_prod_beta split: option.splits)
  qed
qed

lemma keys_distinct_run:
  "keys_distinct (temp_data (globals (run fmt evs (initial_run f))))"
proof (induction evs rule: rev_induct)
  case Nil
  show ?case by (simp add: run_def initial_run_def initial_state_def keys_distinct_def)
next
  case (snoc ev evs)
  then show ?case unfolding run_snoc by (rule keys_distinct_main_step)
qed

section \<open>Locking, scan failures and discovery\<close>

lemma process_advertisement_address_set:
  "found_h5055 st \<longrightarrow> h5055_address st \<noteq> None \<Longrightarrow>
   found_h5055 (snd (process_advertisement adv st)) \<longrightarrow>
     h5055_address (snd (process_advertisement adv st)) \<noteq> None"
  by (simp add: process_advertisement_def Let_def)

lemma discovery_callback_lock:
  assumes "b \<longrightarrow> found_h5055 st" and "found_h5055 st \<longrightarrow> h5055_address st \<noteq> None"
  shows "fst (discovery_callback adv (b, st)) \<longrightarrow> found_h5055 (snd (discovery_callback adv (b, st)))"
    and "found_h5055 (snd (discovery_callback adv (b, st))) \<longrightarrow>
           h5055_address (snd (discovery_callback adv (b, st))) \<noteq> None"
  using assms process_advertisement_found [of st adv] process_advertisement_address_set [of st adv]
  by (auto simp: discovery_callback_def log_error_frame split: prod.splits option.splits)

lemma fold_discovery_lock:
  assumes "b \<longrightarrow> found_h5055 st" and "found_h5055 st \<longrightarrow> h5055_address st \<noteq> None"
  shows "(fst (fold discovery_callback ads (b, st)) \<longrightarrow>
            found_h5055 (snd (fold discovery_callback ads (b, st))))
       \<and> (found_h5055 (snd (fold discovery_callback ads (b, st))) \<longrightarrow>
            h5055_address (snd (fold discovery_callback ads (b, st))) \<noteq> None)"
  using assms
proof (induction ads arbitrary: b st)
  case Nil
  then show ?case by simp
next
  case (Cons adv ads)
  note l = discovery_callback_lock [OF Cons.prems, of adv]
  from Cons.IH [of "fst (discovery_callback adv (b, st))" "snd (discovery_callback adv (b, st))",
      OF l]
  show ?case by simp
qed

lemma scan_for_devices_lock:
  assumes "\<not> found_h5055 st" and "fst (scan_for_devices oc st)"
  shows "found_h5055 (snd (scan_for_devices oc st))
       \<and> h5055_address (snd (scan_for_devices oc st)) \<noteq> None"
proof -
  let ?st0 = "st\<lparr>processed_devices := {}\<rparr>"
  have "False \<longrightarrow> found_h5055 ?st0" "found_h5055 ?st0 \<longrightarrow> h5055_address ?st0 \<noteq> None"
    using assms(1) by simp_all
  note l = fold_discovery_lock [OF this]
  from assms(2) obtain ads where oc: "oc = Completes ads"
    by (cases oc) (simp_all add: scan_for_devices_def Let_def case_prod_beta)
  with assms(2) l [of ads] show ?thesis
    by (auto simp: scan_for_devices_def Let_def case_prod_beta)
qed

lemma main_step_lock:
  assumes "phase rs = Searching" and "\<not> found_h5055 (globals rs)"
    and "phase (main_step fmt ev rs) = Monitoring"
  shows "found_h5055 (globals (main_step fmt ev rs))
       \<and> h5055_address (globals (main_step fmt ev rs)) \<noteq> None"
proof (cases ev)
  case Interrupt
  with assms show ?thesis by (simp add: main_step_def)
next
  case (Cycle oc t1 t2)
  from assms Cycle have "fst (scan_for_devices oc (globals rs))"
    by (auto simp: main_step_def Let_def case_prod_beta start_monitoring_def split: if_splits)
  from scan_for_devices_lock [OF assms(2) this] assms(1,2) Cycle this show ?thesis
    by (simp add: main_step_def Let_def case_prod_beta start_monitoring_def)
qed

text \<open>
  Claim C8. The step that takes the run from searching to monitoring has found a device
  and set its address. From then on, whatever the environment supplies, the run never is
  searching again, makes no further discovery scan (\<open>scan_count\<close> stays) and keeps the
  address.
\<close>

theorem no_discovery_after_lock:
  "(phase rs = Searching \<and> \<not> found_h5055 (globals rs) \<and> phase (main_step fmt ev rs) = Monitoring
      \<longrightarrow> found_h5055 (globals (main_step fmt ev rs))
          \<and> h5055_address (globals (main_step fmt ev rs)) \<noteq> None)
   \<and> (phase rs \<noteq> Searching
      \<longrightarrow> phase (run fmt evs rs) \<noteq> Searching
          \<and> scan_count (run fmt evs rs) = scan_count rs
          \<and> h5055_address (globals (run fmt evs rs)) = h5055_address (globals rs))"
  using main_step_lock [of rs fmt ev] run_locked [of rs fmt evs] by blast

lemma print_temperature_readings_log:
  "fst (print_temperature_readings fmt ns now (log_error e st)) =
     fst (print_temperature_readings fmt ns now st)"
  by (simp add: print_temperature_readings_unfold log_error_def t_plus_of_def start_instant_def)

lemma scan_failed_cases: "scan_failed oc \<Longrightarrow> oc = StartFails \<or> oc = StopFails (delivered oc)"
  by (cases oc) simp_all

lemma scan_for_devices_failed:
  assumes "scan_failed oc"
  shows "scan_for_devices oc st =
           (False, log_error ScanErrorLogged (snd (scan_for_devices (Completes (delivered oc)) st)))"
  using assms by (cases oc) (simp_all add: scan_for_devices_def Let_def case_prod_beta)

lemma scan_specific_device_failed:
  assumes "scan_failed oc"
  shows "scan_specific_device d oc st =
           log_error ScanErrorLogged (scan_specific_device d (Completes (delivered oc)) st)"
  using assms by (cases oc) (simp_all add: scan_specific_device_def)

lemma scan_specific_device_nothing:
  "delivered oc = [] \<Longrightarrow> temp_data (scan_specific_device d oc st) = temp_data st"
  by (cases oc) (simp_all add: scan_specific_device_def log_error_frame)

lemma main_step_scan_failed_searching:
  assumes "scan_failed oc" and "phase rs = Searching"
  shows "phase (main_step fmt (Cycle oc t1 t2) rs) =
           (if found_h5055 (globals rs) then Monitoring else Searching)"
  using assms
  by (simp add: main_step_def Let_def case_prod_beta start_monitoring_def scan_for_devices_failed)

lemma main_step_scan_failed_monitoring:
  assumes "scan_failed oc" and "phase rs = Monitoring"
  shows "phase (main_step fmt (Cycle oc t1 t2) rs) =
           phase (main_step fmt (Cycle (Completes (delivered oc)) t1 t2) rs)"
  using assms(2)
  by (simp add: main_step_def Let_def case_prod_beta scan_specific_device_failed [OF assms(1)]
      print_temperature_readings_log split: option.splits)

text \<open>
  Claim C9, amended. A scan that fails is caught and logged: discovery returns \<open>False\<close>,
  and the state is that of the same scan completing with the advertisements delivered
  before the failure, plus the log entry. The Reading Store is unchanged when nothing was
  delivered. The run is not stopped by the failure: a searching run goes on searching
  (it starts monitoring only where the loop condition was false already), a monitoring
  cycle ends as the one with the completed scan does.
\<close>

theorem scan_error_not_fatal:
  assumes "scan_failed oc"
  shows "scan_for_devices oc st =
           (False, log_error ScanErrorLogged (snd (scan_for_devices (Completes (delivered oc)) st)))
       \<and> scan_specific_device d oc st =
           log_error ScanErrorLogged (scan_specific_device d (Completes (delivered oc)) st)
       \<and> (delivered oc = [] \<longrightarrow>
            temp_data (snd (scan_for_devices oc st)) = temp_data st
            \<and> temp_data (scan_specific_device d oc st) = temp_data st)
       \<and> (phase rs = Searching \<longrightarrow>
            phase (main_step fmt (Cycle oc t1 t2) rs) =
              (if found_h5055 (globals rs) then Monitoring else Searching))
       \<and> (phase rs = Monitoring \<longrightarrow>
            phase (main_step fmt (Cycle oc t1 t2) rs) =
              phase (main_step fmt (Cycle (Completes (delivered oc)) t1 t2) rs))"
proof -
  have "delivered oc = [] \<longrightarrow> temp_data (snd (scan_for_devices oc st)) = temp_data st"
    by (simp add: scan_for_devices_frame advertised_updates_def apply_updates_def)
  with scan_for_devices_failed [OF assms] scan_specific_device_failed [OF assms]
    scan_specific_device_nothing [of oc d st]
    main_step_scan_failed_searching [OF assms, of rs fmt t1 t2]
    main_step_scan_failed_monitoring [OF assms, of rs fmt t1 t2]
  show ?thesis by blast
qed

lemma expected_row_in_snapshot:
  "(a, ps) \<in> set td \<Longrightarrow> ps \<noteq> [] \<Longrightarrow> expected_row fmt tp td a ps \<in> set (snapshot_rows fmt tp td td)"
  by (force simp: snapshot_rows_def)

text \<open>
  Claim C10. A discovery scan merges the updates of every advertisement it delivers into
  the Reading Store, under the address of the advertisement, whatever the device type.
  A snapshot writes a row for every device of the store that has readings, whatever the
  locked address is.
\<close>

theorem discovery_merges_every_advertisement:
  "temp_data (snd (scan_for_devices oc st)) =
     apply_updates (advertised_updates (delivered oc)) (temp_data st)
   \<and> (keys_distinct (temp_data st') \<and> no_null_readings (temp_data st')
        \<and> (a, ps) \<in> set (temp_data st') \<and> ps \<noteq> [] \<longrightarrow>
      csv_file (snd (print_temperature_readings fmt ns now st')) =
        append_rows (csv_file st') (fieldnames (temp_data st'))
          (snapshot_rows fmt (t_plus_of ns now st') (temp_data st') (temp_data st'))
      \<and> expected_row fmt (t_plus_of ns now st') (temp_data st') a ps
          \<in> set (snapshot_rows fmt (t_plus_of ns now st') (temp_data st') (temp_data st')))"
  using print_temperature_readings_rows(2) [of st' fmt ns now]
    expected_row_in_snapshot [of a ps "temp_data st'" fmt "t_plus_of ns now st'"]
  by (simp add: scan_for_devices_frame)

section \<open>The theorems at concrete inputs\<close>

text \<open>
  The snapshot of the two devices, started on a file that does not exist (C4).
\<close>

theorem snapshot_columns_and_rows_witness:
  "keys_distinct (temp_data example_state)
   \<and> fieldnames (temp_data example_state) = [''t_plus'', ''device'', ''probe_1'', ''probe_2'']
   \<and> fst (print_temperature_readings format_1f 0 3661 example_state) = None
   \<and> csv_file (snd (print_temperature_readings format_1f 0 3661 example_state)) =
       Some [Header [''t_plus'', ''device'', ''probe_1'', ''probe_2''],
             Row [''1:01:01'', ''AA'', ''63.5'', ''21.0''],
             Row [''1:01:01'', ''BB'', ''5.0'', '''']]"
proof -
  have h1: "keys_distinct (temp_data example_state)" by code_simp
  have h2: "no_null_readings (temp_data example_state)" by code_simp
  note t = snapshot_columns_and_rows [OF h1, of format_1f 0 3661]
  have e1: "''t_plus'' # ''device'' #
      map probe_column (sorted_list_of_set (observed_probe_ids (temp_data example_state)))
      = [''t_plus'', ''device'', ''probe_1'', ''probe_2'']" by code_simp
  have e2: "append_rows (csv_file example_state) (fieldnames (temp_data example_state))
      (snapshot_rows format_1f (t_plus_of 0 3661 example_state) (temp_data example_state)
         (takeWhile (\<lambda>(a, ps). printable ps) (temp_data example_state))) =
       Some [Header [''t_plus'', ''device'', ''probe_1'', ''probe_2''],
             Row [''1:01:01'', ''AA'', ''63.5'', ''21.0''],
             Row [''1:01:01'', ''BB'', ''5.0'', '''']]" by code_simp
  from t e1 e2 h1 h2 show ?thesis by simp
qed

text \<open>
  The first snapshot of the two devices, on a file that does not exist, writes the header
  and two rows; a second snapshot adds two rows and no header; so does a run of three
  cycles that starts without a file (C5).
\<close>

theorem header_written_once_witness:
  "keys_distinct (temp_data example_state) \<and> csv_file example_state = None
   \<and> csv_file (snd (print_temperature_readings format_1f 0 3661 example_state)) =
       Some [Header [''t_plus'', ''device'', ''probe_1'', ''probe_2''],
             Row [''1:01:01'', ''AA'', ''63.5'', ''21.0''],
             Row [''1:01:01'', ''BB'', ''5.0'', '''']]
   \<and> csv_file (snd (print_temperature_readings format_1f 0 3700
         (snd (print_temperature_readings format_1f 0 3661 example_state)))) =
       Some [Header [''t_plus'', ''device'', ''probe_1'', ''probe_2''],
             Row [''1:01:01'', ''AA'', ''63.5'', ''21.0''],
             Row [''1:01:01'', ''BB'', ''5.0'', ''''],
             Row [''1:01:40'', ''AA'', ''63.5'', ''21.0''],
             Row [''1:01:40'', ''BB'', ''5.0'', '''']]
   \<and> csv_file (globals (initial_run None)) = None
   \<and> csv_file (globals (run format_1f
         [Cycle (Completes [adv_other, adv_target]) 100 100,
          Cycle (Completes [adv_target]) 100 160,
          Cycle (Completes [adv_target]) 100 220] (initial_run None))) =
       Some [Header [''t_plus'', ''device'', ''probe_1'', ''probe_2''],
             Row [''0:01:00'', ''BB'', ''5.0'', ''''],
             Row [''0:01:00'', ''AA'', ''63.5'', ''21.0''],
             Row [''0:02:00'', ''BB'', ''5.0'', ''''],
             Row [''0:02:00'', ''AA'', ''63.5'', ''21.0'']]
   \<and> header_once (csv_file (globals (initial_run None)))
         (csv_file (globals (run format_1f
            [Cycle (Completes [adv_other, adv_target]) 100 100,
             Cycle (Completes [adv_target]) 100 160,
             Cycle (Completes [adv_target]) 100 220] (initial_run None))))"
proof -
  let ?evs = "[Cycle (Completes [adv_other, adv_target]) 100 100,
          Cycle (Completes [adv_target]) 100 160,
          Cycle (Completes [adv_target]) 100 220]"
  let ?st1 = "snd (print_temperature_readings format_1f 0 3661 example_state)"
  have h1: "keys_distinct (temp_data example_state)" by code_simp
  have h2: "keys_distinct (temp_data ?st1)" by code_simp
  have f0: "csv_file example_state = None" by code_simp
  have r0: "csv_file (globals (initial_run None)) = None" by code_simp
  note t1 = header_written_once [of example_state format_1f 0 3661 "initial_run None" ?evs]
  note t2 = header_written_once [of ?st1 format_1f 0 3700 "initial_run None" "[]"]
  have e1: "(let rows = snapshot_rows format_1f (t_plus_of 0 3661 example_state)
                 (temp_data example_state)
                 (takeWhile (\<lambda>(a, ps). printable ps) (temp_data example_state))
       in if rows = [] then csv_file example_state
          else case csv_file example_state of
                 None \<Rightarrow> Some (Header (fieldnames (temp_data example_state)) # map Row rows)
               | Some ls \<Rightarrow> Some (ls @ map Row rows)) =
       Some [Header [''t_plus'', ''device'', ''probe_1'', ''probe_2''],
             Row [''1:01:01'', ''AA'', ''63.5'', ''21.0''],
             Row [''1:01:01'', ''BB'', ''5.0'', '''']]" by code_simp
  have e2: "(let rows = snapshot_rows format_1f (t_plus_of 0 3700 ?st1) (temp_data ?st1)
                 (takeWhile (\<lambda>(a, ps). printable ps) (temp_data ?st1))
       in if rows = [] then csv_file ?st1
          else case csv_file ?st1 of
                 None \<Rightarrow> Some (Header (fieldnames (temp_data ?st1)) # map Row rows)
               | Some ls \<Rightarrow> Some (ls @ map Row rows)) =
       Some [Header [''t_plus'', ''device'', ''probe_1'', ''probe_2''],
             Row [''1:01:01'', ''AA'', ''63.5'', ''21.0''],
             Row [''1:01:01'', ''BB'', ''5.0'', ''''],
             Row [''1:01:40'', ''AA'', ''63.5'', ''21.0''],
             Row [''1:01:40'', ''BB'', ''5.0'', '''']]" by code_simp
  have e3: "csv_file (globals (run format_1f ?evs (initial_run None))) =
       Some [Header [''t_plus'', ''device'', ''probe_1'', ''probe_2''],
             Row [''0:01:00'', ''BB'', ''5.0'', ''''],
             Row [''0:01:00'', ''AA'', ''63.5'', ''21.0''],
             Row [''0:02:00'', ''BB'', ''5.0'', ''''],
             Row [''0:02:00'', ''AA'', ''63.5'', ''21.0'']]" by code_simp
  from t1 h1 e1 have c1: "csv_file ?st1 =
       Some [Header [''t_plus'', ''device'', ''probe_1'', ''probe_2''],
             Row [''1:01:01'', ''AA'', ''63.5'', ''21.0''],
             Row [''1:01:01'', ''BB'', ''5.0'', '''']]" by simp
  from t2 h2 e2 have c2: "csv_file (snd (print_temperature_readings format_1f 0 3700 ?st1)) =
       Some [Header [''t_plus'', ''device'', ''probe_1'', ''probe_2''],
             Row [''1:01:01'', ''AA'', ''63.5'', ''21.0''],
             Row [''1:01:01'', ''BB'', ''5.0'', ''''],
             Row [''1:01:40'', ''AA'', ''63.5'', ''21.0''],
             Row [''1:01:40'', ''BB'', ''5.0'', '''']]" by simp
  from t1 have c3: "header_once (csv_file (globals (initial_run None)))
         (csv_file (globals (run format_1f ?evs (initial_run None))))" by simp
  from h1 f0 r0 c1 c2 c3 e3 show ?thesis by simp
qed

text \<open>
  The same snapshot on a file whose header has one probe column: the new rows are wider than the header (C3).
\<close>

theorem new_probe_after_header_witness:
  "csv_file example_state_with_file =
     Some (Header (fieldnames [(''AA'', [(1, Some 63.5)])]) # [Row [''0:00:10'', ''AA'', ''63.5'']])
   \<and> all_probe_ids [(''AA'', [(1, Some 63.5)])] \<subset> all_probe_ids (temp_data example_state_with_file)
   \<and> keys_distinct (temp_data example_state_with_file)
   \<and> no_null_readings (temp_data example_state_with_file)
   \<and> fst (print_temperature_readings format_1f 0 3661 example_state_with_file) = None
   \<and> csv_file (snd (print_temperature_readings format_1f 0 3661 example_state_with_file)) =
       Some [Header [''t_plus'', ''device'', ''probe_1''],
             Row [''0:00:10'', ''AA'', ''63.5''],
             Row [''1:01:01'', ''AA'', ''63.5'', ''21.0''],
             Row [''1:01:01'', ''BB'', ''5.0'', '''']]"
proof -
  have h1: "csv_file example_state_with_file =
     Some (Header (fieldnames [(''AA'', [(1, Some 63.5)])]) # [Row [''0:00:10'', ''AA'', ''63.5'']])"
    by code_simp
  have h2: "all_probe_ids [(''AA'', [(1, Some 63.5)])] \<subset> all_probe_ids (temp_data example_state_with_file)"
    by code_simp
  have h3: "keys_distinct (temp_data example_state_with_file)" by code_simp
  have h4: "no_null_readings (temp_data example_state_with_file)" by code_simp
  note t = new_probe_after_header [OF h1 h2 h3 h4, of format_1f 0 3661]
  have e: "Header (fieldnames [(''AA'', [(1, Some 63.5)])]) # [Row [''0:00:10'', ''AA'', ''63.5'']] @
      map Row (snapshot_rows format_1f (t_plus_of 0 3661 example_state_with_file)
        (temp_data example_state_with_file) (temp_data example_state_with_file)) =
       [Header [''t_plus'', ''device'', ''probe_1''],
             Row [''0:00:10'', ''AA'', ''63.5''],
             Row [''1:01:01'', ''AA'', ''63.5'', ''21.0''],
             Row [''1:01:01'', ''BB'', ''5.0'', '''']]" by code_simp
  from t e h1 h2 h3 h4 show ?thesis by simp
qed

text \<open>
  Two snapshots in a row (C6).
\<close>

theorem snapshot_idempotent_witness:
  "keys_distinct (temp_data example_state)
   \<and> print_temperature_readings format_1f 0 3661 example_state =
       (None, snd (print_temperature_readings format_1f 0 3661 example_state))
   \<and> temp_data (snd (print_temperature_readings format_1f 0 3725
        (snd (print_temperature_readings format_1f 0 3661 example_state)))) = two_device_store
   \<and> csv_file (snd (print_temperature_readings format_1f 0 3725
        (snd (print_temperature_readings format_1f 0 3661 example_state)))) =
       Some [Header [''t_plus'', ''device'', ''probe_1'', ''probe_2''],
             Row [''1:01:01'', ''AA'', ''63.5'', ''21.0''],
             Row [''1:01:01'', ''BB'', ''5.0'', ''''],
             Row [''1:02:05'', ''AA'', ''63.5'', ''21.0''],
             Row [''1:02:05'', ''BB'', ''5.0'', '''']]"
proof -
  let ?st1 = "snd (print_temperature_readings format_1f 0 3661 example_state)"
  have h1: "keys_distinct (temp_data example_state)" by code_simp
  have "fst (print_temperature_readings format_1f 0 3661 example_state) = None" by code_simp
  then have h2: "print_temperature_readings format_1f 0 3661 example_state = (None, ?st1)"
    by (metis prod.collapse)
  note t = snapshot_idempotent [OF h1 h2, of 0 3725]
  have e0: "temp_data example_state = two_device_store" by code_simp
  have e: "append_rows (csv_file ?st1) (fieldnames (temp_data example_state))
             (snapshot_rows format_1f (t_plus_of 0 3725 ?st1) (temp_data example_state)
                (temp_data example_state)) =
       Some [Header [''t_plus'', ''device'', ''probe_1'', ''probe_2''],
             Row [''1:01:01'', ''AA'', ''63.5'', ''21.0''],
             Row [''1:01:01'', ''BB'', ''5.0'', ''''],
             Row [''1:02:05'', ''AA'', ''63.5'', ''21.0''],
             Row [''1:02:05'', ''BB'', ''5.0'', '''']]" by code_simp
  from t e e0 h1 h2 show ?thesis by simp
qed

text \<open>
  A run that locks on \<open>AA\<close> at its first scan and goes on for three cycles (C8).
\<close>

theorem no_discovery_after_lock_witness:
  "phase (initial_run None) = Searching \<and> \<not> found_h5055 (globals (initial_run None))
   \<and> phase locked_run = Monitoring \<and> found_h5055 (globals locked_run)
   \<and> h5055_address (globals locked_run) = Some ''AA'' \<and> scan_count locked_run = 1
   \<and> phase (run format_1f
         [Cycle (Completes [adv_other, adv_target]) 100 160, Cycle StartFails 100 220,
          Cycle (StopFails [adv_other]) 100 280] locked_run) = Monitoring
   \<and> scan_count (run format_1f
         [Cycle (Completes [adv_other, adv_target]) 100 160, Cycle StartFails 100 220,
          Cycle (StopFails [adv_other]) 100 280] locked_run) = 1
   \<and> h5055_address (globals (run format_1f
         [Cycle (Completes [adv_other, adv_target]) 100 160, Cycle StartFails 100 220,
          Cycle (StopFails [adv_other]) 100 280] locked_run)) = Some ''AA''"
proof -
  let ?evs = "[Cycle (Completes [adv_other, adv_target]) 100 160, Cycle StartFails 100 220,
          Cycle (StopFails [adv_other]) 100 280]"
  have h1: "phase (initial_run None) = Searching" by code_simp
  have h2: "\<not> found_h5055 (globals (initial_run None))" by code_simp
  have h3: "phase (main_step format_1f (Cycle (Completes [adv_other, adv_target]) 100 100)
              (initial_run None)) = Monitoring" by code_simp
  have h4: "phase locked_run \<noteq> Searching" by code_simp
  have e1: "h5055_address (globals locked_run) = Some ''AA''" by code_simp
  have e2: "scan_count locked_run = 1" by code_simp
  have e3: "phase (run format_1f ?evs locked_run) = Monitoring" by code_simp
  from no_discovery_after_lock
         [of "initial_run None" format_1f "Cycle (Completes [adv_other, adv_target]) 100 100" "[]"]
       h1 h2 h3
  have a: "found_h5055 (globals locked_run)" by (simp add: locked_run_def)
  from no_discovery_after_lock [of locked_run format_1f Interrupt ?evs] h4
  have b: "scan_count (run format_1f ?evs locked_run) = scan_count locked_run
         \<and> h5055_address (globals (run format_1f ?evs locked_run)) = h5055_address (globals locked_run)"
    by simp
  from h1 h2 h3 a b e1 e2 e3 show ?thesis by (simp add: locked_run_def)
qed

text \<open>
  A scan that fails in \<open>stop\<close>, in discovery and in a monitoring cycle (C9).
\<close>

theorem scan_error_not_fatal_witness:
  "scan_failed (StopFails [adv_other, adv_target])
   \<and> fst (scan_for_devices (StopFails [adv_other, adv_target]) (initial_state None)) = False
   \<and> error_log (snd (scan_for_devices (StopFails [adv_other, adv_target]) (initial_state None)))
       = [ScanErrorLogged]
   \<and> phase locked_run = Monitoring
   \<and> phase (main_step format_1f (Cycle (StopFails [adv_other, adv_target]) 100 160) locked_run)
       = Monitoring"
proof -
  let ?oc = "StopFails [adv_other, adv_target]"
  have h: "scan_failed ?oc" by simp
  note t = scan_error_not_fatal [OF h, of "initial_state None" None locked_run format_1f 100 160]
  have e1: "error_log (log_error ScanErrorLogged
      (snd (scan_for_devices (Completes (delivered ?oc)) (initial_state None)))) = [ScanErrorLogged]"
    by code_simp
  have e2: "phase locked_run = Monitoring" by code_simp
  have e3: "phase (main_step format_1f (Cycle (Completes (delivered ?oc)) 100 160) locked_run)
      = Monitoring" by code_simp
  from t e1 e2 e3 h show ?thesis by simp
qed

text \<open>
  Claim C9, as stated, fails: a monitoring cycle whose scan fails in \<open>stop\<close> after it
  delivered an advertisement is no no-op on the Reading Store. The readings the callback
  merged before the failure stay.
\<close>

theorem scan_error_keeps_delivered_readings:
  "temp_data (initial_state None) = []
   \<and> temp_data (scan_specific_device (Some ''AA'') (StopFails [adv_target]) (initial_state None))
       = [(''AA'', [(1, Some 63.5), (2, Some 21)])]
   \<and> error_log (scan_specific_device (Some ''AA'') (StopFails [adv_target]) (initial_state None))
       = [ScanErrorLogged]
   \<and> temp_data (globals locked_run) = [(''BB'', [(1, Some 5)]), (''AA'', [(1, Some 63.5), (2, Some 21)])]
   \<and> temp_data (globals (main_step format_1f
        (Cycle (StopFails [adv_target\<lparr>adv_updates := [WithAlarm (Some 70) None 1 None]\<rparr>]) 100 160)
        locked_run))
       = [(''BB'', [(1, Some 5)]), (''AA'', [(1, Some 70), (2, Some 21)])]"
  by code_simp

text \<open>
  The discovery scan stores the reading of \<open>BB\<close>, which is not of the target type, and the
  snapshot after the lock on \<open>AA\<close> writes a row for it (C10).
\<close>

theorem discovery_merges_every_advertisement_witness:
  "temp_data (snd (scan_for_devices (Completes [adv_other, adv_target]) (initial_state None))) =
     [(''BB'', [(1, Some 5)]), (''AA'', [(1, Some 63.5), (2, Some 21)])]
   \<and> h5055_address (globals locked_run) = Some ''AA''
   \<and> keys_distinct (temp_data (globals locked_run))
   \<and> no_null_readings (temp_data (globals locked_run))
   \<and> (''BB'', [(1, Some 5)]) \<in> set (temp_data (globals locked_run))
   \<and> csv_file (snd (print_temperature_readings format_1f 100 3761 (globals locked_run))) =
       Some [Header [''t_plus'', ''device'', ''probe_1'', ''probe_2''],
             Row [''1:01:01'', ''BB'', ''5.0'', ''''],
             Row [''1:01:01'', ''AA'', ''63.5'', ''21.0'']]"
proof -
  let ?st = "globals locked_run"
  have h1: "keys_distinct (temp_data ?st)" by code_simp
  have h2: "no_null_readings (temp_data ?st)" by code_simp
  have h3: "(''BB'', [(1, Some 5)]) \<in> set (temp_data ?st)" by code_simp
  have h4: "[(1::int, Some (5::real))] \<noteq> []" by simp
  note t = discovery_merges_every_advertisement
    [of "Completes [adv_other, adv_target]" "initial_state None" ?st "''BB''" "[(1, Some 5)]"
        format_1f 100 3761]
  have e1: "apply_updates (advertised_updates (delivered (Completes [adv_other, adv_target])))
      (temp_data (initial_state None)) = [(''BB'', [(1, Some 5)]), (''AA'', [(1, Some 63.5), (2, Some 21)])]"
    by code_simp
  have e2: "append_rows (csv_file ?st) (fieldnames (temp_data ?st))
      (snapshot_rows format_1f (t_plus_of 100 3761 ?st) (temp_data ?st) (temp_data ?st)) =
       Some [Header [''t_plus'', ''device'', ''probe_1'', ''probe_2''],
             Row [''1:01:01'', ''BB'', ''5.0'', ''''],
             Row [''1:01:01'', ''AA'', ''63.5'', ''21.0'']]" by code_simp
  have e3: "h5055_address ?st = Some ''AA''" by code_simp
  from t e1 e2 e3 h1 h2 h3 h4 show ?thesis by simp
qed

end
